theory Spec2Isabelle
  imports Main "HOL-Library.Word"
begin

unbundle bit_operations_syntax

section \<open>SPIR-V words and constants\<close>

text \<open>
  The module is a vector of 32-bit words (\<open>std::vector<uint32_t> _words\<close>): a header of
  five words (magic, version, generator, id bound, schema) followed by instructions.
  Word 0 of an instruction packs the word count (high 16 bits) and the opcode (low 16 bits).
  The numeric values below are those of the SPIR-V enumerations the source names.
\<close>

type_synonym u32 = "32 word"

abbreviation (input) SpvMagicNumber :: u32 where "SpvMagicNumber \<equiv> 0x07230203"
abbreviation (input) SpvOpCodeMask :: u32 where "SpvOpCodeMask \<equiv> 0xffff"
abbreviation (input) SpvWordCountShift :: nat where "SpvWordCountShift \<equiv> 16"

abbreviation (input) SpvOpNop :: u32 where "SpvOpNop \<equiv> 0"
abbreviation (input) SpvOpSourceContinued :: u32 where "SpvOpSourceContinued \<equiv> 2"
abbreviation (input) SpvOpSource :: u32 where "SpvOpSource \<equiv> 3"
abbreviation (input) SpvOpSourceExtension :: u32 where "SpvOpSourceExtension \<equiv> 4"
abbreviation (input) SpvOpName :: u32 where "SpvOpName \<equiv> 5"
abbreviation (input) SpvOpMemberName :: u32 where "SpvOpMemberName \<equiv> 6"
abbreviation (input) SpvOpString :: u32 where "SpvOpString \<equiv> 7"
abbreviation (input) SpvOpLine :: u32 where "SpvOpLine \<equiv> 8"
abbreviation (input) SpvOpExtension :: u32 where "SpvOpExtension \<equiv> 10"
abbreviation (input) SpvOpExtInstImport :: u32 where "SpvOpExtInstImport \<equiv> 11"
abbreviation (input) SpvOpMemoryModel :: u32 where "SpvOpMemoryModel \<equiv> 14"
abbreviation (input) SpvOpEntryPoint :: u32 where "SpvOpEntryPoint \<equiv> 15"
abbreviation (input) SpvOpExecutionMode :: u32 where "SpvOpExecutionMode \<equiv> 16"
abbreviation (input) SpvOpCapability :: u32 where "SpvOpCapability \<equiv> 17"
abbreviation (input) SpvOpTypeVoid :: u32 where "SpvOpTypeVoid \<equiv> 19"
abbreviation (input) SpvOpTypeBool :: u32 where "SpvOpTypeBool \<equiv> 20"
abbreviation (input) SpvOpTypeInt :: u32 where "SpvOpTypeInt \<equiv> 21"
abbreviation (input) SpvOpTypeFloat :: u32 where "SpvOpTypeFloat \<equiv> 22"
abbreviation (input) SpvOpTypeVector :: u32 where "SpvOpTypeVector \<equiv> 23"
abbreviation (input) SpvOpTypeMatrix :: u32 where "SpvOpTypeMatrix \<equiv> 24"
abbreviation (input) SpvOpTypeImage :: u32 where "SpvOpTypeImage \<equiv> 25"
abbreviation (input) SpvOpTypeSampler :: u32 where "SpvOpTypeSampler \<equiv> 26"
abbreviation (input) SpvOpTypeSampledImage :: u32 where "SpvOpTypeSampledImage \<equiv> 27"
abbreviation (input) SpvOpTypeArray :: u32 where "SpvOpTypeArray \<equiv> 28"
abbreviation (input) SpvOpTypeStruct :: u32 where "SpvOpTypeStruct \<equiv> 30"
abbreviation (input) SpvOpTypePointer :: u32 where "SpvOpTypePointer \<equiv> 32"
abbreviation (input) SpvOpConstant :: u32 where "SpvOpConstant \<equiv> 43"
abbreviation (input) SpvOpVariable :: u32 where "SpvOpVariable \<equiv> 59"
abbreviation (input) SpvOpLoad :: u32 where "SpvOpLoad \<equiv> 61"
abbreviation (input) SpvOpStore :: u32 where "SpvOpStore \<equiv> 62"
abbreviation (input) SpvOpCopyMemory :: u32 where "SpvOpCopyMemory \<equiv> 63"
abbreviation (input) SpvOpAccessChain :: u32 where "SpvOpAccessChain \<equiv> 65"
abbreviation (input) SpvOpInBoundsAccessChain :: u32 where "SpvOpInBoundsAccessChain \<equiv> 66"
abbreviation (input) SpvOpDecorate :: u32 where "SpvOpDecorate \<equiv> 71"
abbreviation (input) SpvOpMemberDecorate :: u32 where "SpvOpMemberDecorate \<equiv> 72"
abbreviation (input) SpvOpDecorationGroup :: u32 where "SpvOpDecorationGroup \<equiv> 73"
abbreviation (input) SpvOpGroupDecorate :: u32 where "SpvOpGroupDecorate \<equiv> 74"
abbreviation (input) SpvOpGroupMemberDecorate :: u32 where "SpvOpGroupMemberDecorate \<equiv> 75"
abbreviation (input) SpvOpNoLine :: u32 where "SpvOpNoLine \<equiv> 317"
abbreviation (input) SpvOpModuleProcessed :: u32 where "SpvOpModuleProcessed \<equiv> 330"

section \<open>Faults\<close>

text \<open>
  The C++ has behaviours that are not a normal return: a failed \<open>nassertr\<close>/\<open>nassertv\<close>
  (treated as fatal), a read outside an instruction or outside a vector, and a null
  pointer dereference. Each is a value of \<open>fault\<close>; a function that can hit one returns
  \<open>fault + 'a\<close>, with \<open>Inl\<close> for the fault.
\<close>

datatype fault = AssertionFailed | OutOfRange | NullPointer

section \<open>InstructionStream::strip\<close>

text \<open>
  The opcodes that \<open>strip\<close> does not copy (the negation of the condition in the source's
  \<open>if\<close>).
\<close>

definition is_debug_opcode :: "u32 \<Rightarrow> bool" where
  "is_debug_opcode opcode \<longleftrightarrow>
     \<not> (opcode \<noteq> SpvOpNop \<and>
        opcode \<noteq> SpvOpSourceContinued \<and>
        opcode \<noteq> SpvOpSource \<and>
        opcode \<noteq> SpvOpSourceExtension \<and>
        opcode \<noteq> SpvOpName \<and>
        opcode \<noteq> SpvOpMemberName \<and>
        opcode \<noteq> SpvOpString \<and>
        opcode \<noteq> SpvOpLine \<and>
        opcode \<noteq> SpvOpNoLine \<and>
        opcode \<noteq> SpvOpModuleProcessed)"

text \<open>
  The loop of \<open>strip\<close>: \<open>copy\<close> is the new stream's word vector, the second argument the
  words from the read pointer to \<open>end\<close>. A word count of zero fails the \<open>nassertr\<close>; a word
  count that runs past \<open>end\<close> makes \<open>copy._words.insert\<close> read outside the vector.
\<close>

function strip_loop :: "u32 list \<Rightarrow> u32 list \<Rightarrow> fault + u32 list" where
  "strip_loop copy [] = Inr copy"
| "strip_loop copy (w # ws) =
     (let wcount = unat (drop_bit SpvWordCountShift w);
          opcode = w AND SpvOpCodeMask
      in if wcount = 0 then Inl AssertionFailed
         else if \<not> is_debug_opcode opcode then
           (if length (w # ws) < wcount then Inl OutOfRange
            else strip_loop (copy @ take wcount (w # ws)) (drop wcount (w # ws)))
         else strip_loop copy (drop wcount (w # ws)))"
  by pat_completeness auto
termination
  by (relation "measure (\<lambda>(copy, ws). length ws)") auto

text \<open>
  \<open>InstructionStream::strip\<close>: the header (the first five words) is copied, then the loop
  runs from word 5. Constructing the copy from five words reads outside a shorter vector.
\<close>

definition strip :: "u32 list \<Rightarrow> fault + u32 list" where
  "strip words =
     (if length words < 5 then Inl OutOfRange
      else strip_loop (take 5 words) (drop 5 words))"

text \<open>
  The specification's view of a stream, for comparison with the loop above: the words
  after the header are cut into instructions, each as long as its own word count says.
  A stream is well formed when it has a header and this cut succeeds (no zero word count,
  no instruction running past the end).
\<close>

function split_instructions :: "u32 list \<Rightarrow> u32 list list option" where
  "split_instructions [] = Some []"
| "split_instructions (w # ws) =
     (let wcount = unat (drop_bit SpvWordCountShift w)
      in if wcount = 0 \<or> length (w # ws) < wcount then None
         else map_option ((#) (take wcount (w # ws)))
                (split_instructions (drop wcount (w # ws))))"
  by pat_completeness auto
termination
  by (relation "measure length") auto

definition well_formed :: "u32 list \<Rightarrow> bool" where
  "well_formed words \<longleftrightarrow> 5 \<le> length words \<and> split_instructions (drop 5 words) \<noteq> None"

definition instruction_words :: "u32 list \<Rightarrow> u32 list list" where
  "instruction_words words = the (split_instructions (drop 5 words))"

text \<open>
  The opcodes the specification lists as dropped: no-op, source, source-continued,
  source-extension, name, member-name, string, line, no-line, module-processed.
\<close>

definition debug_opcodes :: "u32 set" where
  "debug_opcodes =
     {SpvOpNop, SpvOpSource, SpvOpSourceContinued, SpvOpSourceExtension, SpvOpName,
      SpvOpMemberName, SpvOpString, SpvOpLine, SpvOpNoLine, SpvOpModuleProcessed}"

definition kept_by_strip :: "u32 list \<Rightarrow> bool" where
  "kept_by_strip ins \<longleftrightarrow> hd ins AND SpvOpCodeMask \<notin> debug_opcodes"

section \<open>Shader types and definitions\<close>

text \<open>
  The enumerations of SPIR-V that the parser and the passes compare against.
\<close>

abbreviation (input) SpvAddressingModelLogical :: u32 where "SpvAddressingModelLogical \<equiv> 0"
abbreviation (input) SpvMemoryModelGLSL450 :: u32 where "SpvMemoryModelGLSL450 \<equiv> 1"

abbreviation (input) SpvStorageClassUniformConstant :: u32 where "SpvStorageClassUniformConstant \<equiv> 0"
abbreviation (input) SpvStorageClassInput :: u32 where "SpvStorageClassInput \<equiv> 1"
abbreviation (input) SpvStorageClassUniform :: u32 where "SpvStorageClassUniform \<equiv> 2"
abbreviation (input) SpvStorageClassOutput :: u32 where "SpvStorageClassOutput \<equiv> 3"

abbreviation (input) SpvDecorationBuiltIn :: u32 where "SpvDecorationBuiltIn \<equiv> 11"
abbreviation (input) SpvDecorationLocation :: u32 where "SpvDecorationLocation \<equiv> 30"

abbreviation (input) SpvBuiltInMax :: u32 where "SpvBuiltInMax \<equiv> 0x7fffffff"

abbreviation (input) SpvDim1D :: u32 where "SpvDim1D \<equiv> 0"
abbreviation (input) SpvDim2D :: u32 where "SpvDim2D \<equiv> 1"
abbreviation (input) SpvDim3D :: u32 where "SpvDim3D \<equiv> 2"
abbreviation (input) SpvDimCube :: u32 where "SpvDimCube \<equiv> 3"
abbreviation (input) SpvDimRect :: u32 where "SpvDimRect \<equiv> 4"
abbreviation (input) SpvDimBuffer :: u32 where "SpvDimBuffer \<equiv> 5"
abbreviation (input) SpvDimSubpassData :: u32 where "SpvDimSubpassData \<equiv> 6"

abbreviation (input) SpvAccessQualifierReadOnly :: u32 where "SpvAccessQualifierReadOnly \<equiv> 0"
abbreviation (input) SpvAccessQualifierWriteOnly :: u32 where "SpvAccessQualifierWriteOnly \<equiv> 1"
abbreviation (input) SpvAccessQualifierReadWrite :: u32 where "SpvAccessQualifierReadWrite \<equiv> 2"

text \<open>
  \<open>ShaderType\<close> and the texture enumerations are declared outside the files at hand; the
  parser only constructs their values and tests their class. Types are interned by
  \<open>ShaderType::register_type\<close>, so pointer equality in the source is equality of values
  here. A null \<open>const ShaderType *\<close> is \<open>None\<close>.
\<close>

datatype TextureType =
    TT_1d_texture | TT_2d_texture | TT_3d_texture | TT_2d_texture_array
  | TT_cube_map | TT_buffer_texture | TT_cube_map_array | TT_1d_texture_array

datatype Access = Access_unknown | Access_read_only | Access_write_only | Access_read_write

datatype ScalarType = ST_bool | ST_int | ST_uint | ST_float

datatype ShaderType =
    Scalar ScalarType
  | Vector ScalarType u32
  | Matrix ScalarType u32 u32
  | Image TextureType Access
  | Sampler
  | SampledImage TextureType
  | Array ShaderType u32
  | Struct "(ShaderType option \<times> string) list"

datatype DefinitionType = DT_none | DT_type | DT_type_pointer | DT_variable | DT_constant

text \<open>
  \<open>struct Definition\<close>, one per id. The declaration is not in the files at hand; the
  fields are those the source reads and writes, with the defaults the specification
  gives: kind none, null type, location \<open>-1\<close>, built-in tag \<open>SpvBuiltInMax\<close>. The location
  is a C++ \<open>int\<close>. The storage class of a fresh entry is never read before
  \<open>set_variable\<close> writes it.
\<close>

record Definition =
  def_dtype :: DefinitionType
  def_name :: string
  def_type :: "ShaderType option"
  def_location :: int
  def_builtin :: u32
  def_constant :: u32
  def_member_names :: "string list"
  def_storage_class :: u32

definition Definition_default :: Definition where
  "Definition_default =
     \<lparr>def_dtype = DT_none, def_name = [], def_type = None, def_location = -1,
      def_builtin = SpvBuiltInMax, def_constant = 0, def_member_names = [],
      def_storage_class = 0\<rparr>"

type_synonym Definitions = "Definition list"

definition set_name :: "Definition \<Rightarrow> string \<Rightarrow> Definition" where
  "set_name d n = d\<lparr>def_name := n\<rparr>"

text \<open>
  \<open>set_member_name\<close>: \<open>_member_names.resize(i + 1)\<close> when \<open>i\<close> is not below the size; the
  sum is a 32-bit one, so for \<open>i = 0xffffffff\<close> the vector is resized to nothing and the
  store is outside it.
\<close>

definition resize :: "string list \<Rightarrow> nat \<Rightarrow> string list" where
  "resize names n = take n names @ replicate (n - length names) []"

definition set_member_name :: "Definition \<Rightarrow> u32 \<Rightarrow> string \<Rightarrow> fault + Definition" where
  "set_member_name d i n =
     (let names = (if length (def_member_names d) \<le> unat i
                   then resize (def_member_names d) (unat (i + 1))
                   else def_member_names d)
      in if unat i < length names
         then Inr (d\<lparr>def_member_names := names[unat i := n]\<rparr>)
         else Inl OutOfRange)"

definition set_type :: "Definition \<Rightarrow> ShaderType option \<Rightarrow> Definition" where
  "set_type d t = d\<lparr>def_dtype := DT_type, def_type := t\<rparr>"

definition set_type_pointer :: "Definition \<Rightarrow> u32 \<Rightarrow> ShaderType option \<Rightarrow> Definition" where
  "set_type_pointer d storage_class t = d\<lparr>def_dtype := DT_type_pointer, def_type := t\<rparr>"

definition set_variable :: "Definition \<Rightarrow> ShaderType option \<Rightarrow> u32 \<Rightarrow> Definition" where
  "set_variable d t storage_class =
     d\<lparr>def_dtype := DT_variable, def_type := t, def_storage_class := storage_class\<rparr>"

definition set_constant :: "Definition \<Rightarrow> ShaderType option \<Rightarrow> u32 list \<Rightarrow> Definition" where
  "set_constant d t ws =
     d\<lparr>def_dtype := DT_constant, def_type := t,
       def_constant := (if 0 < length ws then ws ! 0 else 0)\<rparr>"

section \<open>The instruction parser\<close>

text \<open>
  A literal string in the stream is read through \<open>(const char *)&args[k]\<close>: the bytes of
  the words from \<open>args[k]\<close> on, lowest byte first, up to the first zero byte. A string
  with no zero byte inside the instruction is read past its end.
\<close>

definition word_bytes :: "u32 \<Rightarrow> nat list" where
  "word_bytes w =
     [unat (w AND 0xff), unat (drop_bit 8 w AND 0xff),
      unat (drop_bit 16 w AND 0xff), unat (drop_bit 24 w AND 0xff)]"

definition c_str :: "u32 list \<Rightarrow> fault + string" where
  "c_str ws =
     (let bytes = concat (map word_bytes ws)
      in if 0 \<in> set bytes then Inr (map char_of (takeWhile (\<lambda>b. b \<noteq> 0) bytes))
         else Inl OutOfRange)"

text \<open>
  \<open>defs[id].f(...)\<close> for an update \<open>f\<close> of one entry; an id outside the table is a read
  outside the vector. The result is the pair of the return value \<open>true\<close> and the table.
\<close>

definition update_def ::
  "Definitions \<Rightarrow> u32 \<Rightarrow> (Definition \<Rightarrow> Definition) \<Rightarrow> fault + bool \<times> Definitions" where
  "update_def defs i f =
     (if unat i < length defs then Inr (True, defs[unat i := f (defs ! unat i)])
      else Inl OutOfRange)"

definition parse_OpMemoryModel :: "Definitions \<Rightarrow> u32 list \<Rightarrow> fault + bool \<times> Definitions" where
  "parse_OpMemoryModel defs args =
     (if length args < 1 then Inl OutOfRange
      else if args ! 0 \<noteq> SpvAddressingModelLogical then Inr (False, defs)
      else if length args < 2 then Inl OutOfRange
      else if args ! 1 \<noteq> SpvMemoryModelGLSL450 then Inr (False, defs)
      else Inr (True, defs))"

definition parse_OpName :: "Definitions \<Rightarrow> u32 list \<Rightarrow> fault + bool \<times> Definitions" where
  "parse_OpName defs args =
     (if length args < 2 then Inl OutOfRange
      else case c_str (drop 1 args) of
             Inl e \<Rightarrow> Inl e
           | Inr n \<Rightarrow> update_def defs (args ! 0) (\<lambda>d. set_name d n))"

definition parse_OpMemberName :: "Definitions \<Rightarrow> u32 list \<Rightarrow> fault + bool \<times> Definitions" where
  "parse_OpMemberName defs args =
     (if length args < 3 then Inl OutOfRange
      else case c_str (drop 2 args) of
             Inl e \<Rightarrow> Inl e
           | Inr n \<Rightarrow>
               if length defs \<le> unat (args ! 0) then Inl OutOfRange
               else case set_member_name (defs ! unat (args ! 0)) (args ! 1) n of
                      Inl e \<Rightarrow> Inl e
                    | Inr d \<Rightarrow> Inr (True, defs[unat (args ! 0) := d]))"

definition parse_OpTypeInt :: "Definitions \<Rightarrow> u32 list \<Rightarrow> fault + bool \<times> Definitions" where
  "parse_OpTypeInt defs args =
     (if length args < 3 then Inl OutOfRange
      else if args ! 2 \<noteq> 0
        then update_def defs (args ! 0) (\<lambda>d. set_type d (Some (Scalar ST_int)))
        else update_def defs (args ! 0) (\<lambda>d. set_type d (Some (Scalar ST_uint))))"

text \<open>
  Modelled from the specification: \<open>DCAST_INTO_R(p, q, false)\<close> (its definition is not in
  the files at hand) makes the parse fail, by returning \<open>false\<close>, when \<open>q\<close> is null or is
  not of the class of \<open>p\<close>: a vector needs a scalar element type, a matrix a vector
  column type.
\<close>

definition parse_OpTypeVector :: "Definitions \<Rightarrow> u32 list \<Rightarrow> fault + bool \<times> Definitions" where
  "parse_OpTypeVector defs args =
     (if length args < 2 \<or> length defs \<le> unat (args ! 1) then Inl OutOfRange
      else case def_type (defs ! unat (args ! 1)) of
             Some (Scalar scalar_type) \<Rightarrow>
               if length args < 3 then Inl OutOfRange
               else let component_count = args ! 2
                    in update_def defs (args ! 0)
                         (\<lambda>d. set_type d (Some (Vector scalar_type component_count)))
           | _ \<Rightarrow> Inr (False, defs))"

definition parse_OpTypeMatrix :: "Definitions \<Rightarrow> u32 list \<Rightarrow> fault + bool \<times> Definitions" where
  "parse_OpTypeMatrix defs args =
     (if length args < 2 \<or> length defs \<le> unat (args ! 1) then Inl OutOfRange
      else case def_type (defs ! unat (args ! 1)) of
             Some (Vector scalar_type num_components) \<Rightarrow>
               if length args < 3 then Inl OutOfRange
               else let num_rows = args ! 2
                    in update_def defs (args ! 0)
                         (\<lambda>d. set_type d (Some (Matrix scalar_type num_rows num_components)))
           | _ \<Rightarrow> Inr (False, defs))"

definition parse_OpTypePointer :: "Definitions \<Rightarrow> u32 list \<Rightarrow> fault + bool \<times> Definitions" where
  "parse_OpTypePointer defs args =
     (if length args < 3 \<or> length defs \<le> unat (args ! 2) then Inl OutOfRange
      else update_def defs (args ! 0)
             (\<lambda>d. set_type_pointer d (args ! 1) (def_type (defs ! unat (args ! 2)))))"

text \<open>
  The texture type of an \<open>OpTypeImage\<close>, from the dimensionality \<open>args[2]\<close> and, where the
  source reads it, the arrayed flag \<open>args[4]\<close>; \<open>Inr None\<close> is the \<open>return false\<close> of the
  unsupported dimensionalities.
\<close>

definition image_texture_type :: "u32 list \<Rightarrow> fault + TextureType option" where
  "image_texture_type args =
     (if length args < 3 then Inl OutOfRange
      else if args ! 2 = SpvDim1D then
        (if length args < 5 then Inl OutOfRange
         else Inr (Some (if args ! 4 \<noteq> 0 then TT_1d_texture_array else TT_1d_texture)))
      else if args ! 2 = SpvDim2D then
        (if length args < 5 then Inl OutOfRange
         else Inr (Some (if args ! 4 \<noteq> 0 then TT_2d_texture_array else TT_2d_texture)))
      else if args ! 2 = SpvDim3D then Inr (Some TT_3d_texture)
      else if args ! 2 = SpvDimCube then
        (if length args < 5 then Inl OutOfRange
         else Inr (Some (if args ! 4 \<noteq> 0 then TT_cube_map_array else TT_cube_map)))
      else if args ! 2 = SpvDimRect then Inr None
      else if args ! 2 = SpvDimBuffer then Inr (Some TT_buffer_texture)
      else if args ! 2 = SpvDimSubpassData then Inr None
      else Inr None)"

definition image_access :: "u32 list \<Rightarrow> Access" where
  "image_access args =
     (if 8 < length args then
        (if args ! 8 = SpvAccessQualifierReadOnly then Access_read_only
         else if args ! 8 = SpvAccessQualifierWriteOnly then Access_write_only
         else if args ! 8 = SpvAccessQualifierReadWrite then Access_read_write
         else Access_unknown)
      else Access_unknown)"

definition parse_OpTypeImage :: "Definitions \<Rightarrow> u32 list \<Rightarrow> fault + bool \<times> Definitions" where
  "parse_OpTypeImage defs args =
     (case image_texture_type args of
        Inl e \<Rightarrow> Inl e
      | Inr None \<Rightarrow> Inr (False, defs)
      | Inr (Some texture_type) \<Rightarrow>
          update_def defs (args ! 0)
            (\<lambda>d. set_type d (Some (Image texture_type (image_access args)))))"

text \<open>
  \<open>defs[args[1]]._type->as_image()\<close> dereferences the type; a null type is a null pointer
  dereference.
\<close>

definition parse_OpTypeSampledImage :: "Definitions \<Rightarrow> u32 list \<Rightarrow> fault + bool \<times> Definitions" where
  "parse_OpTypeSampledImage defs args =
     (if length args < 2 \<or> length defs \<le> unat (args ! 1) then Inl OutOfRange
      else case def_type (defs ! unat (args ! 1)) of
             None \<Rightarrow> Inl NullPointer
           | Some (Image texture_type access) \<Rightarrow>
               update_def defs (args ! 0) (\<lambda>d. set_type d (Some (SampledImage texture_type)))
           | Some _ \<Rightarrow> Inr (False, defs))"

definition parse_OpTypeArray :: "Definitions \<Rightarrow> u32 list \<Rightarrow> fault + bool \<times> Definitions" where
  "parse_OpTypeArray defs args =
     (if length args < 2 \<or> length defs \<le> unat (args ! 1) then Inl OutOfRange
      else case def_type (defs ! unat (args ! 1)) of
             Some element_type \<Rightarrow>
               if length args < 3 \<or> length defs \<le> unat (args ! 2) then Inl OutOfRange
               else update_def defs (args ! 0)
                      (\<lambda>d. set_type d
                         (Some (Array element_type (def_constant (defs ! unat (args ! 2))))))
           | None \<Rightarrow> Inr (True, defs))"

text \<open>
  The loop of \<open>OpTypeStruct\<close>: member \<open>i\<close> has the type of \<open>defs[args[i + 1]]\<close> and the name
  \<open>defs[args[0]]._member_names[i]\<close>; the first argument below is \<open>i\<close>, the last the
  arguments \<open>args[i + 1]\<close> and on. With no argument at all, \<open>nargs - 1\<close> wraps around and
  the loop reads outside the instruction.
\<close>

fun struct_members ::
  "Definitions \<Rightarrow> string list \<Rightarrow> nat \<Rightarrow> u32 list \<Rightarrow> fault + (ShaderType option \<times> string) list" where
  "struct_members defs names i [] = Inr []"
| "struct_members defs names i (a # as) =
     (if length defs \<le> unat a \<or> length names \<le> i then Inl OutOfRange
      else case struct_members defs names (Suc i) as of
             Inl e \<Rightarrow> Inl e
           | Inr ms \<Rightarrow> Inr ((def_type (defs ! unat a), names ! i) # ms))"

definition parse_OpTypeStruct :: "Definitions \<Rightarrow> u32 list \<Rightarrow> fault + bool \<times> Definitions" where
  "parse_OpTypeStruct defs args =
     (if length args < 1 \<or> length defs \<le> unat (args ! 0) then Inl OutOfRange
      else case struct_members defs (def_member_names (defs ! unat (args ! 0))) 0 (drop 1 args) of
             Inl e \<Rightarrow> Inl e
           | Inr ms \<Rightarrow> update_def defs (args ! 0) (\<lambda>d. set_type d (Some (Struct ms))))"

definition parse_OpConstant :: "Definitions \<Rightarrow> u32 list \<Rightarrow> fault + bool \<times> Definitions" where
  "parse_OpConstant defs args =
     (if length args < 2 \<or> length defs \<le> unat (args ! 0) then Inl OutOfRange
      else update_def defs (args ! 1)
             (\<lambda>d. set_constant d (def_type (defs ! unat (args ! 0))) (drop 2 args)))"

definition parse_OpVariable :: "Definitions \<Rightarrow> u32 list \<Rightarrow> fault + bool \<times> Definitions" where
  "parse_OpVariable defs args =
     (if length args < 1 \<or> length defs \<le> unat (args ! 0) then Inl OutOfRange
      else let ptr = defs ! unat (args ! 0)
           in if length args < 2 then Inl OutOfRange
              else if def_dtype ptr \<noteq> DT_type_pointer then Inr (False, defs)
              else if length args < 3 then Inl OutOfRange
              else update_def defs (args ! 1) (\<lambda>d. set_variable d (def_type ptr) (args ! 2)))"

text \<open>
  \<open>defs[args[0]]._location = args[2]\<close> converts the unsigned word to \<open>int\<close>: \<open>sint\<close>.
\<close>

definition parse_OpDecorate :: "Definitions \<Rightarrow> u32 list \<Rightarrow> fault + bool \<times> Definitions" where
  "parse_OpDecorate defs args =
     (if length args < 2 then Inl OutOfRange
      else if args ! 1 = SpvDecorationBuiltIn then
        (if length args < 3 then Inl OutOfRange
         else update_def defs (args ! 0) (\<lambda>d. d\<lparr>def_builtin := args ! 2\<rparr>))
      else if args ! 1 = SpvDecorationLocation then
        (if length args < 3 then Inl OutOfRange
         else update_def defs (args ! 0) (\<lambda>d. d\<lparr>def_location := sint (args ! 2)\<rparr>))
      else Inr (True, defs))"

text \<open>
  \<open>parse_instruction\<close>: the \<open>switch\<close> on the opcode. \<open>Inr (False, defs)\<close> is \<open>return false\<close>,
  \<open>Inr (True, defs')\<close> is \<open>return true\<close> with the table as updated. Reading \<open>args[k]\<close>
  with \<open>k\<close> not below \<open>nargs\<close> is a read outside the instruction; the model stops with
  \<open>OutOfRange\<close> there, as it does for an id outside the definition table.
\<close>

definition parse_instruction ::
  "Definitions \<Rightarrow> u32 \<Rightarrow> u32 list \<Rightarrow> fault + bool \<times> Definitions" where
  "parse_instruction defs opc args =
     (if opc = SpvOpMemoryModel then parse_OpMemoryModel defs args
      else if opc = SpvOpEntryPoint then Inr (True, defs)
      else if opc = SpvOpName then parse_OpName defs args
      else if opc = SpvOpMemberName then parse_OpMemberName defs args
      else if opc = SpvOpTypeVoid then
        (if length args < 1 then Inl OutOfRange
         else update_def defs (args ! 0) (\<lambda>d. set_type d None))
      else if opc = SpvOpTypeBool then
        (if length args < 1 then Inl OutOfRange
         else update_def defs (args ! 0) (\<lambda>d. set_type d (Some (Scalar ST_bool))))
      else if opc = SpvOpTypeInt then parse_OpTypeInt defs args
      else if opc = SpvOpTypeFloat then
        (if length args < 1 then Inl OutOfRange
         else update_def defs (args ! 0) (\<lambda>d. set_type d (Some (Scalar ST_float))))
      else if opc = SpvOpTypeVector then parse_OpTypeVector defs args
      else if opc = SpvOpTypeMatrix then parse_OpTypeMatrix defs args
      else if opc = SpvOpTypePointer then parse_OpTypePointer defs args
      else if opc = SpvOpTypeImage then parse_OpTypeImage defs args
      else if opc = SpvOpTypeSampler then
        (if length args < 1 then Inl OutOfRange
         else update_def defs (args ! 0) (\<lambda>d. set_type d (Some Sampler)))
      else if opc = SpvOpTypeSampledImage then parse_OpTypeSampledImage defs args
      else if opc = SpvOpTypeArray then parse_OpTypeArray defs args
      else if opc = SpvOpTypeStruct then parse_OpTypeStruct defs args
      else if opc = SpvOpConstant then parse_OpConstant defs args
      else if opc = SpvOpVariable then parse_OpVariable defs args
      else if opc = SpvOpDecorate then parse_OpDecorate defs args
      else Inr (True, defs))"

text \<open>
  Modelled from the specification: the range-for over \<open>_instructions\<close> (the iterator is
  declared outside the files at hand) reads word count and opcode at each position and
  yields the opcode with the argument words that follow. The loop of \<open>parse\<close> stops at the
  first instruction that \<open>parse_instruction\<close> rejects. A word count of zero or one that
  runs past the end of the buffer is a read outside the vector.
\<close>

function parse_loop :: "Definitions \<Rightarrow> u32 list \<Rightarrow> fault + bool \<times> Definitions" where
  "parse_loop defs [] = Inr (True, defs)"
| "parse_loop defs (w # ws) =
     (let wcount = unat (drop_bit SpvWordCountShift w);
          opc = w AND SpvOpCodeMask
      in if wcount = 0 \<or> length (w # ws) < wcount then Inl OutOfRange
         else case parse_instruction defs opc (take (wcount - 1) ws) of
                Inl e \<Rightarrow> Inl e
              | Inr (ok, defs') \<Rightarrow>
                  if \<not> ok then Inr (False, defs')
                  else parse_loop defs' (drop (wcount - 1) ws))"
  by pat_completeness auto
termination
  by (relation "measure (\<lambda>(defs, ws). length ws)") auto

text \<open>
  \<open>parse\<close>: the size and magic checks, then the table of \<open>bound\<close> fresh entries (header
  word 3) and the loop. The second argument is the caller's table, which \<open>parse\<close> leaves as
  it is when it returns before \<open>defs = Definitions(bound)\<close>.
\<close>

definition parse :: "u32 list \<Rightarrow> Definitions \<Rightarrow> fault + bool \<times> Definitions" where
  "parse words defs =
     (if length words < 5 then Inr (False, defs)
      else if words ! 0 \<noteq> SpvMagicNumber then Inr (False, defs)
      else let bound = words ! 3
           in parse_loop (replicate (unat bound) Definition_default) (drop 5 words))"

section \<open>Instructions\<close>

text \<open>
  \<open>struct Instruction\<close>, what the iterator yields: the opcode and the argument words;
  \<open>nargs\<close> is the length of \<open>args\<close>.
\<close>

record Instruction =
  opcode :: u32
  args :: "u32 list"

section \<open>Location assignment\<close>

text \<open>
  Modelled from the specification: \<open>BitArray\<close> (declared outside the files at hand) is a
  bitmap of used locations that grows on demand; a bit that was never set reads as off.
  \<open>get_lowest_off_bit\<close> is the lowest free location, \<open>get_next_higher_different_bit b low\<close>
  the next bit above \<open>low\<close> whose value differs from that of \<open>low\<close> (\<open>low\<close> itself when
  there is none), \<open>has_any_of b low n\<close> tells whether a bit of the run of \<open>n\<close> bits
  from \<open>low\<close> is on, and \<open>set_range\<close> marks such a run used.
\<close>

type_synonym BitArray = "bool list"

definition get_bit :: "BitArray \<Rightarrow> nat \<Rightarrow> bool" where
  "get_bit b n \<longleftrightarrow> n < length b \<and> b ! n"

definition set_bit :: "BitArray \<Rightarrow> nat \<Rightarrow> BitArray" where
  "set_bit b n = (b @ replicate (Suc n - length b) False)[n := True]"

definition set_range :: "BitArray \<Rightarrow> nat \<Rightarrow> nat \<Rightarrow> BitArray" where
  "set_range b low n = foldl set_bit b [low..<low + n]"

definition has_any_of :: "BitArray \<Rightarrow> nat \<Rightarrow> nat \<Rightarrow> bool" where
  "has_any_of b low n \<longleftrightarrow> list_ex (get_bit b) [low..<low + n]"

definition get_lowest_off_bit :: "BitArray \<Rightarrow> nat" where
  "get_lowest_off_bit b = length (takeWhile (\<lambda>x. x) b)"

definition get_next_higher_different_bit :: "BitArray \<Rightarrow> nat \<Rightarrow> nat" where
  "get_next_higher_different_bit b low =
     (case find (\<lambda>n. get_bit b n \<noteq> get_bit b low) [Suc low..<Suc (max (length b) (Suc low))] of
        Some n \<Rightarrow> n
      | None \<Rightarrow> low)"

text \<open>
  The shader stages the source names, in the order it lists them; \<open>stage_index\<close> is the
  value the comparison of two stages uses.
\<close>

datatype Stage = vertex | tess_control | tess_evaluation | geometry | fragment

fun stage_index :: "Stage \<Rightarrow> nat" where
  "stage_index vertex = 0"
| "stage_index tess_control = 1"
| "stage_index tess_evaluation = 2"
| "stage_index geometry = 3"
| "stage_index fragment = 4"

text \<open>
  The three bitmaps of \<open>assign_locations\<close>, and the flag of its first loop.
\<close>

record Locations =
  has_unassigned_locations :: bool
  input_locations :: BitArray
  output_locations :: BitArray
  uniform_locations :: BitArray

text \<open>
  The body of the first loop, for one definition. \<open>npl\<close> is
  \<open>ShaderType::get_num_parameter_locations\<close>, which is declared outside the files at hand
  and is a parameter here.
\<close>

definition record_location :: "(ShaderType \<Rightarrow> int) \<Rightarrow> Locations \<Rightarrow> Definition \<Rightarrow> Locations" where
  "record_location npl ls d =
     (if def_dtype d = DT_variable then
        (if def_location d < 0 then
           (if def_builtin d = SpvBuiltInMax \<and>
               (def_storage_class d = SpvStorageClassInput \<or>
                def_storage_class d = SpvStorageClassOutput \<or>
                def_storage_class d = SpvStorageClassUniformConstant)
            then ls\<lparr>has_unassigned_locations := True\<rparr>
            else ls)
         else if def_storage_class d = SpvStorageClassInput then
           ls\<lparr>input_locations := set_bit (input_locations ls) (nat (def_location d))\<rparr>
         else if def_storage_class d = SpvStorageClassOutput then
           ls\<lparr>output_locations := set_bit (output_locations ls) (nat (def_location d))\<rparr>
         else if def_storage_class d = SpvStorageClassUniformConstant then
           ls\<lparr>uniform_locations :=
                 set_range (uniform_locations ls) (nat (def_location d))
                   (nat (case def_type d of Some t \<Rightarrow> npl t | None \<Rightarrow> 1))\<rparr>
         else ls)
      else ls)"

text \<open>
  The condition under which the loop that looks for the end of the annotation block goes
  on to the next instruction.
\<close>

definition is_annotation_opcode :: "u32 \<Rightarrow> bool" where
  "is_annotation_opcode opc \<longleftrightarrow>
     \<not> (opc \<noteq> SpvOpNop \<and>
        opc \<noteq> SpvOpCapability \<and>
        opc \<noteq> SpvOpExtension \<and>
        opc \<noteq> SpvOpExtInstImport \<and>
        opc \<noteq> SpvOpMemoryModel \<and>
        opc \<noteq> SpvOpEntryPoint \<and>
        opc \<noteq> SpvOpExecutionMode \<and>
        opc \<noteq> SpvOpString \<and>
        opc \<noteq> SpvOpSourceExtension \<and>
        opc \<noteq> SpvOpSource \<and>
        opc \<noteq> SpvOpSourceContinued \<and>
        opc \<noteq> SpvOpName \<and>
        opc \<noteq> SpvOpMemberName \<and>
        opc \<noteq> SpvOpModuleProcessed \<and>
        opc \<noteq> SpvOpDecorate \<and>
        opc \<noteq> SpvOpMemberDecorate \<and>
        opc \<noteq> SpvOpGroupDecorate \<and>
        opc \<noteq> SpvOpGroupMemberDecorate \<and>
        opc \<noteq> SpvOpDecorationGroup)"

text \<open>
  The location of an unassigned input: the vertex-stage rule of the second loop.
\<close>

definition input_location :: "Stage \<Rightarrow> BitArray \<Rightarrow> string \<Rightarrow> nat" where
  "input_location stg il n =
     (if stg = vertex \<and> \<not> get_bit il 0 then
        (if n = ''vertex'' \<or> n = ''p3d_Vertex'' \<or> n = ''vtx_position'' then 0
         else if \<not> get_bit il 1 then 1
         else get_next_higher_different_bit il 1)
      else get_lowest_off_bit il)"

text \<open>
  The \<open>while\<close> loop that looks for a free run of \<open>num_locations\<close> uniform locations, from
  the candidate \<open>location\<close>. The first \<open>assert\<close> of the source is a branch; the second,
  \<open>location >= 0\<close>, cannot fail for a natural number.
\<close>

function uniform_location :: "BitArray \<Rightarrow> int \<Rightarrow> nat \<Rightarrow> fault + nat" where
  "uniform_location ul num_locations location =
     (if 1 < num_locations \<and> has_any_of ul location (nat num_locations) then
        (let next_bit = get_next_higher_different_bit ul location
         in if \<not> location < next_bit then Inl AssertionFailed
            else uniform_location ul num_locations (get_next_higher_different_bit ul next_bit))
      else Inr location)"
  by pat_completeness auto
termination
proof (relation "measure (\<lambda>(ul, num_locations, location). length ul - location)", goal_cases)
  case 1
  show ?case by simp
next
  case (2 ul num_locations location next_bit)
  have ge: "low \<le> get_next_higher_different_bit ul low" for low
  proof (cases "find (\<lambda>n. get_bit ul n \<noteq> get_bit ul low)
                  [Suc low..<Suc (max (length ul) (Suc low))]")
    case None
    then show ?thesis by (simp add: get_next_higher_different_bit_def)
  next
    case (Some n)
    then have "n \<in> set [Suc low..<Suc (max (length ul) (Suc low))]"
      unfolding find_Some_iff by (metis nth_mem)
    then have "low \<le> n" by (simp del: upt_Suc)
    then show ?thesis using Some by (simp add: get_next_higher_different_bit_def)
  qed
  from 2 obtain n where n: "location \<le> n" "get_bit ul n"
    by (auto simp: has_any_of_def list_ex_iff)
  then have "location < length ul" by (simp add: get_bit_def)
  moreover have "location < get_next_higher_different_bit ul next_bit"
    using 2 ge[of next_bit] by simp
  ultimately show ?case by simp
qed

declare uniform_location.simps [simp del]

text \<open>
  The body of the second loop for one definition: \<open>None\<close> when the definition gets no
  location (the condition of the \<open>if\<close> fails, or the \<open>continue\<close> of the last branch),
  otherwise the location and the bitmaps with it marked used. A null type of an
  unassigned uniform is dereferenced.
\<close>

definition assign_location ::
  "Stage \<Rightarrow> (ShaderType \<Rightarrow> int) \<Rightarrow> Locations \<Rightarrow> Definition \<Rightarrow> fault + nat option \<times> Locations" where
  "assign_location stg npl ls d =
     (if def_dtype d = DT_variable \<and> def_location d < 0 \<and> def_builtin d = SpvBuiltInMax then
        (if def_storage_class d = SpvStorageClassInput then
           (let location = input_location stg (input_locations ls) (def_name d)
            in Inr (Some location,
                    ls\<lparr>input_locations := set_bit (input_locations ls) location\<rparr>))
         else if def_storage_class d = SpvStorageClassOutput then
           (let location = get_lowest_off_bit (output_locations ls)
            in Inr (Some location,
                    ls\<lparr>output_locations := set_bit (output_locations ls) location\<rparr>))
         else if def_storage_class d = SpvStorageClassUniformConstant then
           (case def_type d of
              None \<Rightarrow> Inl NullPointer
            | Some t \<Rightarrow>
                (let num_locations = npl t
                 in case uniform_location (uniform_locations ls) num_locations
                           (get_lowest_off_bit (uniform_locations ls)) of
                      Inl e \<Rightarrow> Inl e
                    | Inr location \<Rightarrow>
                        Inr (Some location,
                             ls\<lparr>uniform_locations :=
                                   set_range (uniform_locations ls) location
                                     (nat num_locations)\<rparr>)))
         else Inr (None, ls))
      else Inr (None, ls))"

text \<open>
  The second loop, from id \<open>id\<close> over the definitions from that id on. It returns the
  definitions with their new locations and the decoration instructions in the order the
  loop inserts them (each is inserted at the iterator, which then steps over it).
\<close>

fun assign_loop ::
  "Stage \<Rightarrow> (ShaderType \<Rightarrow> int) \<Rightarrow> Locations \<Rightarrow> nat \<Rightarrow> Definition list \<Rightarrow>
     fault + Definition list \<times> Instruction list" where
  "assign_loop stg npl ls i [] = Inr ([], [])"
| "assign_loop stg npl ls i (d # ds) =
     (case assign_location stg npl ls d of
        Inl e \<Rightarrow> Inl e
      | Inr (None, ls') \<Rightarrow>
          (case assign_loop stg npl ls' (Suc i) ds of
             Inl e \<Rightarrow> Inl e
           | Inr (ds', decorations) \<Rightarrow> Inr (d # ds', decorations))
      | Inr (Some location, ls') \<Rightarrow>
          (case assign_loop stg npl ls' (Suc i) ds of
             Inl e \<Rightarrow> Inl e
           | Inr (ds', decorations) \<Rightarrow>
               Inr (d\<lparr>def_location := int location\<rparr> # ds',
                    \<lparr>opcode = SpvOpDecorate,
                     args = [of_nat i, SpvDecorationLocation, of_nat location]\<rparr>
                      # decorations)))"

text \<open>
  \<open>assign_locations\<close>, on the definitions and on the instructions the stream yields. The
  new decorations go before the first instruction that is not of the annotation block.
\<close>

definition assign_locations ::
  "Stage \<Rightarrow> (ShaderType \<Rightarrow> int) \<Rightarrow> Definitions \<Rightarrow> Instruction list \<Rightarrow>
     fault + Definitions \<times> Instruction list" where
  "assign_locations stg npl defs instrs =
     (let ls = foldl (record_location npl)
                 \<lparr>has_unassigned_locations = False, input_locations = [],
                  output_locations = [], uniform_locations = []\<rparr> defs
      in if \<not> has_unassigned_locations ls then Inr (defs, instrs)
         else case assign_loop stg npl ls 0 defs of
                Inl e \<Rightarrow> Inl e
              | Inr (defs', decorations) \<Rightarrow>
                  Inr (defs',
                       takeWhile (\<lambda>ins. is_annotation_opcode (opcode ins)) instrs
                       @ decorations
                       @ dropWhile (\<lambda>ins. is_annotation_opcode (opcode ins)) instrs))"

section \<open>Location remapping and linking\<close>

text \<open>
  \<open>remap_locations\<close>: one pass over the instructions. \<open>done\<close> holds the instructions
  already passed (they can still be written to). \<open>decorations\<close> is the map from an id to
  the pointer \<open>&op.args[2]\<close> of its location decoration, kept as the position of that
  instruction in \<open>done\<close>. The stored word is read back as \<open>int\<close> and the new location is
  written as \<open>uint32_t\<close>. \<open>remap_step\<close> is the body of the loop for the instruction \<open>ins\<close>,
  which joins \<open>done\<close> at the end of the step.
\<close>

definition remap_step ::
  "u32 \<Rightarrow> (int \<rightharpoonup> int) \<Rightarrow> (u32 \<rightharpoonup> nat) \<Rightarrow> Instruction list \<Rightarrow> Instruction \<Rightarrow>
     fault + (u32 \<rightharpoonup> nat) \<times> Instruction list" where
  "remap_step storage_class locations decorations done ins =
     (if opcode ins = SpvOpDecorate then
        (if length (args ins) < 2 then Inl OutOfRange
         else if args ins ! 1 = SpvDecorationLocation \<and> 3 \<le> length (args ins) then
           Inr (decorations(args ins ! 0 \<mapsto> length done), done @ [ins])
         else Inr (decorations, done @ [ins]))
      else if opcode ins = SpvOpVariable then
        (if length (args ins) < 3 then Inl OutOfRange
         else if args ins ! 2 = storage_class then
           (case decorations (args ins ! 1) of
              None \<Rightarrow> Inr (decorations, done @ [ins])
            | Some p \<Rightarrow>
                (case locations (sint (args (done ! p) ! 2)) of
                   None \<Rightarrow> Inr (decorations, done @ [ins])
                 | Some l \<Rightarrow>
                     Inr (decorations,
                          done[p := (done ! p)\<lparr>args := (args (done ! p))[2 := word_of_int l]\<rparr>]
                          @ [ins])))
         else Inr (decorations, done @ [ins]))
      else Inr (decorations, done @ [ins]))"

fun remap_loop ::
  "u32 \<Rightarrow> (int \<rightharpoonup> int) \<Rightarrow> (u32 \<rightharpoonup> nat) \<Rightarrow> Instruction list \<Rightarrow> Instruction list \<Rightarrow>
     fault + Instruction list" where
  "remap_loop storage_class locations decorations done [] = Inr done"
| "remap_loop storage_class locations decorations done (ins # rest) =
     (case remap_step storage_class locations decorations done ins of
        Inl e \<Rightarrow> Inl e
      | Inr (decorations', done') \<Rightarrow>
          remap_loop storage_class locations decorations' done' rest)"

definition remap_locations ::
  "u32 \<Rightarrow> (int \<rightharpoonup> int) \<Rightarrow> Instruction list \<Rightarrow> fault + Instruction list" where
  "remap_locations storage_class locations instrs =
     remap_loop storage_class locations Map.empty [] instrs"

text \<open>
  \<open>struct Variable\<close> of the module's input, output and parameter lists, and the module
  with the members \<open>link_inputs\<close> uses. \<open>m_is_spirv\<close> is the answer of
  \<open>is_of_type(ShaderModuleSpirV::get_class_type())\<close>. Modelled from the specification
  (both are declared outside the files at hand): a variable has a location when it is not
  negative, and \<open>find_output\<close> is the index of the first output of the given name, or
  \<open>-1\<close>.
\<close>

record Variable =
  var_type :: "ShaderType option"
  var_name :: string
  var_location :: int

record ShaderModule =
  m_is_spirv :: bool
  m_stage :: Stage
  m_inputs :: "Variable list"
  m_outputs :: "Variable list"
  m_parameters :: "Variable list"
  m_instructions :: "Instruction list"

definition has_location :: "Variable \<Rightarrow> bool" where
  "has_location v \<longleftrightarrow> 0 \<le> var_location v"

fun find_output_from :: "nat \<Rightarrow> Variable list \<Rightarrow> string \<Rightarrow> int" where
  "find_output_from i [] n = -1"
| "find_output_from i (v # vs) n = (if var_name v = n then int i else find_output_from (Suc i) vs n)"

definition find_output :: "ShaderModule \<Rightarrow> string \<Rightarrow> int" where
  "find_output m n = find_output_from 0 (m_outputs m) n"

text \<open>
  The loop of \<open>link_inputs\<close> over the inputs: \<open>None\<close> is \<open>return false\<close>; otherwise the
  map \<open>location_remap\<close>, as the list of its assignments with the latest first (a lookup
  takes the first pair of a key, as an assignment to a \<open>pmap\<close> overwrites).
\<close>

fun link_loop :: "ShaderModule \<Rightarrow> (int \<times> int) list \<Rightarrow> Variable list \<Rightarrow> (int \<times> int) list option" where
  "link_loop previous location_remap [] = Some location_remap"
| "link_loop previous location_remap (input # rest) =
     (let i = find_output previous (var_name input)
      in if i < 0 then None
         else let output = m_outputs previous ! nat i
              in if \<not> has_location output then None
                 else if \<not> has_location input \<or> var_location output \<noteq> var_location input
                   then link_loop previous
                          ((var_location input, var_location output) # location_remap) rest
                   else link_loop previous location_remap rest)"

definition link_inputs :: "ShaderModule \<Rightarrow> ShaderModule \<Rightarrow> fault + bool \<times> ShaderModule" where
  "link_inputs this previous =
     (if \<not> m_is_spirv previous then Inr (False, this)
      else if stage_index (m_stage this) \<le> stage_index (m_stage previous) then Inr (False, this)
      else case link_loop previous [] (m_inputs this) of
             None \<Rightarrow> Inr (False, this)
           | Some location_remap \<Rightarrow>
               if location_remap \<noteq> [] then
                 (case remap_locations SpvStorageClassInput (map_of location_remap)
                         (m_instructions this) of
                    Inl e \<Rightarrow> Inl e
                  | Inr instrs \<Rightarrow> Inr (True, this\<lparr>m_instructions := instrs\<rparr>))
               else Inr (True, this))"

section \<open>Unwrapping the uniform block\<close>

text \<open>
  The state of \<open>unwrap_uniform_block\<close> besides the stream: the deleted ids, the map from
  the result id of a deleted access chain to the member variable, the member variables,
  the definitions, and the id bound of the header, from which \<open>allocate_id\<close> takes the next
  id. Modelled from the specification: the declarations of the stream's operations are
  outside the files at hand; \<open>allocate_id\<close> returns the bound and increments it, \<open>insert\<close>
  puts an instruction before the iterator, \<open>erase\<close> removes the instruction at the
  iterator, which then stands at the next one, and \<open>erase_arg\<close> removes one argument word.
\<close>

record unwrap_state =
  deleted_ids :: "u32 set"
  deleted_access_chains :: "u32 \<rightharpoonup> u32"
  member_ids :: "u32 list"
  u_defs :: Definitions
  id_bound :: u32

text \<open>
  The search for the type id of a member: the last id whose definition is a type with the
  member's type, \<open>0\<close> when there is none.
\<close>

definition find_type_id :: "Definitions \<Rightarrow> ShaderType option \<Rightarrow> u32" where
  "find_type_id defs t =
     foldl (\<lambda>type_id i.
              if def_type (defs ! i) = t \<and> def_dtype (defs ! i) = DT_type then of_nat i
              else type_id)
       0 [0..<length defs]"

text \<open>
  The loop over the members of the struct, run when the variable of the block is found:
  for each member a pointer type and a variable of storage class uniform-constant, with
  fresh ids, and their two definitions appended to the table. It returns the table, the
  bound, the inserted instructions in order, and the new variable ids in member order.
\<close>

fun unwrap_members ::
  "Definitions \<Rightarrow> u32 \<Rightarrow> (ShaderType option \<times> string) list \<Rightarrow>
     fault + Definitions \<times> u32 \<times> Instruction list \<times> u32 list" where
  "unwrap_members defs bound [] = Inr (defs, bound, [], [])"
| "unwrap_members defs bound ((member_type, member_name) # members) =
     (let type_id = find_type_id defs member_type
      in if \<not> 0 < type_id then Inl AssertionFailed
         else
           let type_pointer_id = bound;
               defs1 = defs @ [Definition_default]
           in if length defs1 \<le> unat type_pointer_id then Inl OutOfRange
              else
                let defs2 = defs1[unat type_pointer_id :=
                              set_type_pointer (defs1 ! unat type_pointer_id)
                                SpvStorageClassUniformConstant member_type];
                    variable_id = bound + 1;
                    defs3 = defs2 @ [Definition_default]
                in if length defs3 \<le> unat variable_id then Inl OutOfRange
                   else
                     let defs4 = defs3[unat variable_id :=
                                   set_variable ((defs3 ! unat variable_id)\<lparr>def_name := member_name\<rparr>)
                                     member_type SpvStorageClassUniformConstant]
                     in case unwrap_members defs4 (bound + 2) members of
                          Inl e \<Rightarrow> Inl e
                        | Inr (defs', bound', inserted, ids) \<Rightarrow>
                            Inr (defs', bound',
                                 \<lparr>opcode = SpvOpTypePointer,
                                  args = [type_pointer_id, SpvStorageClassUniformConstant, type_id]\<rparr>
                                 # \<lparr>opcode = SpvOpVariable,
                                    args = [type_pointer_id, variable_id,
                                            SpvStorageClassUniformConstant]\<rparr>
                                 # inserted,
                                 variable_id # ids))"

text \<open>
  \<open>erase_arg(it, k)\<close> on the instruction at the iterator.
\<close>

definition erase_arg :: "Instruction \<Rightarrow> nat \<Rightarrow> Instruction" where
  "erase_arg ins k = ins\<lparr>args := take k (args ins) @ drop (Suc k) (args ins)\<rparr>"

text \<open>
  The first loop of \<open>unwrap_uniform_block\<close>. \<open>done\<close> holds the instructions before the
  iterator. \<open>unwrap_step\<close> is the body of the loop for the instruction \<open>ins\<close> at the
  iterator; it returns the state and the instructions before the iterator once the
  iterator has moved past \<open>ins\<close>: erasing \<open>ins\<close> leaves \<open>done\<close> as it is, stepping over it
  puts it at the end of \<open>done\<close>, as it does for an inserted instruction.
\<close>

definition unwrap_step ::
  "u32 \<Rightarrow> (ShaderType option \<times> string) list \<Rightarrow> unwrap_state \<Rightarrow> Instruction list \<Rightarrow>
     Instruction \<Rightarrow> fault + unwrap_state \<times> Instruction list" where
  "unwrap_step type_id members st done ins =
     (if opcode ins = SpvOpName \<or> opcode ins = SpvOpMemberName \<or>
         opcode ins = SpvOpDecorate \<or> opcode ins = SpvOpMemberDecorate then
        (if 1 \<le> length (args ins) \<and> args ins ! 0 = type_id
         then Inr (st, done)
         else Inr (st, done @ [ins]))
      else if opcode ins = SpvOpTypeStruct then
        (if 1 \<le> length (args ins) \<and> args ins ! 0 = type_id
         then Inr (st, done)
         else Inr (st, done @ [ins]))
      else if opcode ins = SpvOpTypePointer then
        (if 3 \<le> length (args ins) \<and> args ins ! 2 = type_id
         then Inr (st\<lparr>deleted_ids := insert (args ins ! 0) (deleted_ids st)\<rparr>, done)
         else Inr (st, done @ [ins]))
      else if opcode ins = SpvOpVariable then
        (if 3 \<le> length (args ins) \<and> args ins ! 0 \<in> deleted_ids st then
           (case unwrap_members (u_defs st) (id_bound st) members of
              Inl e \<Rightarrow> Inl e
            | Inr (defs', bound', inserted, ids) \<Rightarrow>
                Inr (st\<lparr>deleted_ids := insert (args ins ! 1) (deleted_ids st),
                        member_ids := ids, u_defs := defs', id_bound := bound'\<rparr>,
                     done @ inserted))
         else Inr (st, done @ [ins]))
      else if opcode ins = SpvOpAccessChain \<or> opcode ins = SpvOpInBoundsAccessChain then
        (if length (args ins) < 3 then Inl OutOfRange
         else if args ins ! 2 \<in> deleted_ids st then
           (if length (args ins) < 4 \<or> length (u_defs st) \<le> unat (args ins ! 3)
            then Inl OutOfRange
            else
              let index = unat (def_constant (u_defs st ! unat (args ins ! 3)))
              in if length (member_ids st) \<le> index then Inl OutOfRange
                 else if 4 < length (args ins) then
                   Inr (st,
                        done @ [erase_arg (ins\<lparr>args := (args ins)[2 := member_ids st ! index]\<rparr>) 3])
                 else
                   Inr (st\<lparr>deleted_access_chains :=
                             (deleted_access_chains st)(args ins ! 1 \<mapsto> member_ids st ! index)\<rparr>,
                        done))
         else Inr (st, done @ [ins]))
      else if opcode ins = SpvOpLoad then
        (if length (args ins) < 3 then Inl OutOfRange
         else if args ins ! 2 \<in> deleted_ids st then Inl AssertionFailed
         else case deleted_access_chains st (args ins ! 2) of
                Some v \<Rightarrow> Inr (st, done @ [ins\<lparr>args := (args ins)[2 := v]\<rparr>])
              | None \<Rightarrow> Inr (st, done @ [ins]))
      else if opcode ins = SpvOpCopyMemory then
        (if length (args ins) < 2 then Inl OutOfRange
         else if args ins ! 1 \<in> deleted_ids st then Inl AssertionFailed
         else case deleted_access_chains st (args ins ! 1) of
                Some v \<Rightarrow> Inr (st, done @ [ins\<lparr>args := (args ins)[1 := v]\<rparr>])
              | None \<Rightarrow> Inr (st, done @ [ins]))
      else Inr (st, done @ [ins]))"

fun unwrap_loop ::
  "u32 \<Rightarrow> (ShaderType option \<times> string) list \<Rightarrow> unwrap_state \<Rightarrow> Instruction list \<Rightarrow>
     Instruction list \<Rightarrow> fault + unwrap_state \<times> Instruction list" where
  "unwrap_loop type_id members st done [] = Inr (st, done)"
| "unwrap_loop type_id members st done (ins # rest) =
     (case unwrap_step type_id members st done ins of
        Inl e \<Rightarrow> Inl e
      | Inr (st', done') \<Rightarrow> unwrap_loop type_id members st' done' rest)"

text \<open>
  The condition under which the second loop erases an instruction.
\<close>

definition decorates_deleted :: "u32 set \<Rightarrow> Instruction \<Rightarrow> bool" where
  "decorates_deleted deleted ins \<longleftrightarrow>
     (opcode ins = SpvOpName \<or> opcode ins = SpvOpDecorate \<or>
      opcode ins = SpvOpMemberName \<or> opcode ins = SpvOpMemberDecorate) \<and>
     2 \<le> length (args ins) \<and> args ins ! 0 \<in> deleted"

text \<open>
  \<open>unwrap_uniform_block\<close>, on the definitions, the id bound and the instructions. Modelled
  from the specification: \<open>DCAST_INTO_V\<close> is an assertion that the type of \<open>type_id\<close> is a
  struct; the members are those of the struct. \<open>member_ids\<close> starts as one id \<open>0\<close> per
  member.
\<close>

definition unwrap_uniform_block ::
  "Definitions \<Rightarrow> u32 \<Rightarrow> Instruction list \<Rightarrow> u32 \<Rightarrow>
     fault + Definitions \<times> u32 \<times> Instruction list" where
  "unwrap_uniform_block defs bound instrs type_id =
     (if length defs \<le> unat type_id then Inl OutOfRange
      else case def_type (defs ! unat type_id) of
             Some (Struct members) \<Rightarrow>
               (case unwrap_loop type_id members
                       \<lparr>deleted_ids = {}, deleted_access_chains = Map.empty,
                        member_ids = replicate (length members) 0,
                        u_defs = defs, id_bound = bound\<rparr> [] instrs of
                  Inl e \<Rightarrow> Inl e
                | Inr (st, instrs') \<Rightarrow>
                    if deleted_ids st = {} then Inr (u_defs st, id_bound st, instrs')
                    else Inr (u_defs st, id_bound st,
                              filter (\<lambda>ins. \<not> decorates_deleted (deleted_ids st) ins) instrs'))
           | _ \<Rightarrow> Inl AssertionFailed)"

section \<open>Notions used to state the properties\<close>

text \<open>
  A location decoration of id \<open>v\<close> as \<open>remap_locations\<close> records it, a variable instruction
  of id \<open>v\<close> in a storage class, and an instruction on which the pass reads no argument
  outside the instruction.
\<close>

definition is_location_decoration :: "Instruction \<Rightarrow> u32 \<Rightarrow> bool" where
  "is_location_decoration ins v \<longleftrightarrow>
     opcode ins = SpvOpDecorate \<and> 3 \<le> length (args ins) \<and>
     args ins ! 1 = SpvDecorationLocation \<and> args ins ! 0 = v"

definition is_variable_of :: "u32 \<Rightarrow> Instruction \<Rightarrow> u32 \<Rightarrow> bool" where
  "is_variable_of storage_class ins v \<longleftrightarrow>
     opcode ins = SpvOpVariable \<and> 3 \<le> length (args ins) \<and>
     args ins ! 2 = storage_class \<and> args ins ! 1 = v"

definition remap_readable :: "Instruction \<Rightarrow> bool" where
  "remap_readable ins \<longleftrightarrow>
     (opcode ins = SpvOpDecorate \<longrightarrow> 2 \<le> length (args ins)) \<and>
     (opcode ins = SpvOpVariable \<longrightarrow> 3 \<le> length (args ins))"

text \<open>
  The instruction with its third argument, the location of a location decoration,
  replaced.
\<close>

definition with_location :: "Instruction \<Rightarrow> int \<Rightarrow> Instruction" where
  "with_location ins l = ins\<lparr>args := (args ins)[2 := word_of_int l]\<rparr>"

text \<open>
  The output of the previous stage that \<open>link_inputs\<close> matches with an input.
\<close>

definition matched_output :: "ShaderModule \<Rightarrow> Variable \<Rightarrow> Variable" where
  "matched_output previous input = m_outputs previous ! nat (find_output previous (var_name input))"

text \<open>
  The invariant of the map \<open>decorations\<close> in \<open>remap_locations\<close>: every pointer it holds
  points into a location decoration of its id among the instructions already passed.
\<close>

definition decs_ok :: "(u32 \<rightharpoonup> nat) \<Rightarrow> Instruction list \<Rightarrow> bool" where
  "decs_ok decs done \<longleftrightarrow> (\<forall>v p. decs v = Some p \<longrightarrow> p < length done \<and> is_location_decoration (done ! p) v)"

text \<open>
  A definition that \<open>assign_locations\<close> gives a location: a variable that is not a
  built-in, of storage class input, output or uniform-constant, with a negative
  location. \<open>new_uniform\<close> is such a definition of storage class uniform-constant,
  \<open>old_uniform\<close> a uniform-constant variable that has its location already.
\<close>

definition needs_location :: "Definition \<Rightarrow> bool" where
  "needs_location d \<longleftrightarrow>
     def_dtype d = DT_variable \<and> def_location d < 0 \<and> def_builtin d = SpvBuiltInMax \<and>
     (def_storage_class d = SpvStorageClassInput \<or>
      def_storage_class d = SpvStorageClassOutput \<or>
      def_storage_class d = SpvStorageClassUniformConstant)"

definition new_uniform :: "Definition \<Rightarrow> bool" where
  "new_uniform d \<longleftrightarrow> needs_location d \<and> def_storage_class d = SpvStorageClassUniformConstant"

definition old_uniform :: "Definition \<Rightarrow> bool" where
  "old_uniform d \<longleftrightarrow>
     def_dtype d = DT_variable \<and> 0 \<le> def_location d \<and>
     def_storage_class d = SpvStorageClassUniformConstant"

text \<open>
  The half-open range of locations of a uniform-constant variable: from its location,
  as many as its type has parameter locations (one for a null type, as the first loop of
  \<open>assign_locations\<close> counts it).
\<close>

definition uniform_range :: "(ShaderType \<Rightarrow> int) \<Rightarrow> Definition \<Rightarrow> int set" where
  "uniform_range npl d =
     {def_location d ..< def_location d + (case def_type d of Some t \<Rightarrow> npl t | None \<Rightarrow> 1)}"

text \<open>
  The decoration instruction that the second loop of \<open>assign_locations\<close> inserts for the
  id \<open>i\<close> and the location \<open>l\<close>.
\<close>

definition location_decoration :: "nat \<Rightarrow> nat \<Rightarrow> Instruction" where
  "location_decoration i l =
     \<lparr>opcode = SpvOpDecorate, args = [of_nat i, SpvDecorationLocation, of_nat l]\<rparr>"

text \<open>
  The input locations that are taken when the second loop of \<open>assign_locations\<close> reaches
  the id \<open>i\<close>, read off the tables before (\<open>defs\<close>) and after (\<open>defs'\<close>): location \<open>l\<close> is
  taken when it is the location of an input variable that had its location before, or of
  an input variable of an id below \<open>i\<close>. \<open>vertex_aliases\<close> are the names that the vertex
  stage prefers at location 0.
\<close>

definition input_taken :: "Definitions \<Rightarrow> Definitions \<Rightarrow> nat \<Rightarrow> nat \<Rightarrow> bool" where
  "input_taken defs defs' i l \<longleftrightarrow>
     list_ex (\<lambda>k. def_dtype (defs ! k) = DT_variable \<and>
                  def_storage_class (defs ! k) = SpvStorageClassInput \<and>
                  def_location (defs' ! k) = int l \<and>
                  (0 \<le> def_location (defs ! k) \<or> k < i))
             [0..<length defs]"

definition vertex_aliases :: "string set" where
  "vertex_aliases = {''vertex'', ''p3d_Vertex'', ''vtx_position''}"

section \<open>Example modules\<close>

text \<open>
  A stream of a capability, a name, a void type, a line and a float type instruction,
  after a header with id bound 3.
\<close>

definition strip_example :: "u32 list" where
  "strip_example =
     [0x07230203, 0x00010000, 0, 3, 0,
      0x00020011, 1,
      0x00030005, 1, 0x00000061,
      0x00020013, 1,
      0x00040008, 2, 1, 1,
      0x00030016, 2, 32]"

text \<open>
  A capability instruction followed by a memory-model instruction that declares the
  addressing model 1 (physical, 32 bit), after a header with id bound 1.
\<close>

definition memory_model_example :: "u32 list" where
  "memory_model_example =
     [0x07230203, 0x00010000, 0, 1, 0,
      0x00020011, 1,
      0x0003000e, 1, 1]"

text \<open>
  An array type instruction with result id 1, element type id 2 and length id 3, none of
  which is defined, after a header with id bound 4; and the same with a vector type
  instruction after a capability instruction.
\<close>

definition array_example :: "u32 list" where
  "array_example =
     [0x07230203, 0x00010000, 0, 4, 0,
      0x0004001c, 1, 2, 3]"

definition vector_example :: "u32 list" where
  "vector_example =
     [0x07230203, 0x00010000, 0, 4, 0,
      0x00020011, 1,
      0x00040017, 1, 2, 4]"

text \<open>
  A two-component float vector input with id 4: its types, its pointer type and its
  variable. \<open>link_previous\<close> is a vertex stage with the output \<open>texcoord\<close> at location 2;
  \<open>link_this n l instrs\<close> is a fragment stage with one input of name \<open>n\<close> and location \<open>l\<close>
  and the given instructions.
\<close>

definition texcoord_instructions :: "Instruction list" where
  "texcoord_instructions =
     [\<lparr>opcode = SpvOpTypeFloat, args = [1, 32]\<rparr>,
      \<lparr>opcode = SpvOpTypeVector, args = [2, 1, 2]\<rparr>,
      \<lparr>opcode = SpvOpTypePointer, args = [3, SpvStorageClassInput, 2]\<rparr>,
      \<lparr>opcode = SpvOpVariable, args = [3, 4, SpvStorageClassInput]\<rparr>]"

definition link_previous :: ShaderModule where
  "link_previous =
     \<lparr>m_is_spirv = True, m_stage = vertex, m_inputs = [],
      m_outputs = [\<lparr>var_type = Some (Vector ST_float 2), var_name = ''texcoord'', var_location = 2\<rparr>],
      m_parameters = [], m_instructions = []\<rparr>"

definition link_this :: "string \<Rightarrow> int \<Rightarrow> Instruction list \<Rightarrow> ShaderModule" where
  "link_this n l instrs =
     \<lparr>m_is_spirv = True, m_stage = fragment,
      m_inputs = [\<lparr>var_type = Some (Vector ST_float 2), var_name = n, var_location = l\<rparr>],
      m_outputs = [], m_parameters = [], m_instructions = instrs\<rparr>"

text \<open>
  A table of definitions for \<open>assign_locations\<close>: two inputs without a location, a matrix
  uniform at location 1, and a texture and a matrix uniform without a location; a count
  of parameter locations that gives a matrix four and every other type one; and a stream
  of a capability and a type instruction.
\<close>

definition example_npl :: "ShaderType \<Rightarrow> int" where
  "example_npl t = (case t of Matrix s r c \<Rightarrow> 4 | _ \<Rightarrow> 1)"

definition example_variable :: "string \<Rightarrow> ShaderType \<Rightarrow> u32 \<Rightarrow> int \<Rightarrow> Definition" where
  "example_variable n t storage_class l =
     \<lparr>def_dtype = DT_variable, def_name = n, def_type = Some t, def_location = l,
      def_builtin = SpvBuiltInMax, def_constant = 0, def_member_names = [],
      def_storage_class = storage_class\<rparr>"

definition assign_example_defs :: Definitions where
  "assign_example_defs =
     [Definition_default,
      example_variable ''p3d_Vertex'' (Vector ST_float 4) SpvStorageClassInput (-1),
      example_variable ''color'' (Vector ST_float 4) SpvStorageClassInput (-1),
      example_variable ''mvp'' (Matrix ST_float 4 4) SpvStorageClassUniformConstant 1,
      example_variable ''tex'' (SampledImage TT_2d_texture) SpvStorageClassUniformConstant (-1),
      example_variable ''proj'' (Matrix ST_float 4 4) SpvStorageClassUniformConstant (-1)]"

definition assign_example_instrs :: "Instruction list" where
  "assign_example_instrs =
     [\<lparr>opcode = SpvOpCapability, args = [1]\<rparr>, \<lparr>opcode = SpvOpTypeFloat, args = [6, 32]\<rparr>]"

text \<open>
  A member-name instruction that names member 0 of id 1 \<open>a\<close>, followed by a struct type
  instruction with result id 1 and one member of type id 2, which is not defined, after
  a header with id bound 3.
\<close>

definition struct_example :: "u32 list" where
  "struct_example =
     [0x07230203, 0x00010000, 0, 3, 0,
      0x00040006, 1, 0, 0x00000061,
      0x0003001e, 1, 2]"

text \<open>
  A float type with id 1, a runtime array type of it with id 2, a uniform-constant
  pointer type to the array with id 3 and a uniform-constant variable of that pointer
  type with id 4, after a header with id bound 5; and the table of definitions that the
  parser builds from it.
\<close>

definition null_type_example :: "u32 list" where
  "null_type_example =
     [0x07230203, 0x00010000, 0, 5, 0,
      0x00030016, 1, 32,
      0x0003001d, 2, 1,
      0x00040020, 3, 0, 2,
      0x0004003b, 3, 4, 0]"

definition null_type_defs :: Definitions where
  "null_type_defs =
     [Definition_default,
      Definition_default\<lparr>def_dtype := DT_type, def_type := Some (Scalar ST_float)\<rparr>,
      Definition_default,
      Definition_default\<lparr>def_dtype := DT_type_pointer\<rparr>,
      Definition_default\<lparr>def_dtype := DT_variable,
                          def_storage_class := SpvStorageClassUniformConstant\<rparr>]"

text \<open>
  Two inputs \<open>a\<close> and \<open>b\<close> with ids 4 and 6: the type instructions they share, the variable
  instruction of an input, a vertex stage with the outputs \<open>a\<close> at location 1 and \<open>b\<close> at
  location 2, and a fragment stage with the inputs \<open>a\<close> and \<open>b\<close> at the given locations.
\<close>

definition vec2_types :: "Instruction list" where
  "vec2_types =
     [\<lparr>opcode = SpvOpTypeFloat, args = [1, 32]\<rparr>,
      \<lparr>opcode = SpvOpTypeVector, args = [2, 1, 2]\<rparr>,
      \<lparr>opcode = SpvOpTypePointer, args = [3, SpvStorageClassInput, 2]\<rparr>]"

definition input_variable :: "u32 \<Rightarrow> Instruction" where
  "input_variable v = \<lparr>opcode = SpvOpVariable, args = [3, v, SpvStorageClassInput]\<rparr>"

definition link_previous_ab :: ShaderModule where
  "link_previous_ab =
     \<lparr>m_is_spirv = True, m_stage = vertex, m_inputs = [],
      m_outputs = [\<lparr>var_type = Some (Vector ST_float 2), var_name = ''a'', var_location = 1\<rparr>,
                   \<lparr>var_type = Some (Vector ST_float 2), var_name = ''b'', var_location = 2\<rparr>],
      m_parameters = [], m_instructions = []\<rparr>"

definition link_this_ab :: "int \<Rightarrow> int \<Rightarrow> Instruction list \<Rightarrow> ShaderModule" where
  "link_this_ab la lb instrs =
     \<lparr>m_is_spirv = True, m_stage = fragment,
      m_inputs = [\<lparr>var_type = Some (Vector ST_float 2), var_name = ''a'', var_location = la\<rparr>,
                  \<lparr>var_type = Some (Vector ST_float 2), var_name = ''b'', var_location = lb\<rparr>],
      m_outputs = [], m_parameters = [], m_instructions = instrs\<rparr>"

text \<open>
  The table of definitions of \<open>texcoord_instructions\<close> with the variable named
  \<open>texcoord\<close> and without a location; a table with an input without a location and an
  input at location 1; and the tables these and \<open>assign_example_defs\<close> become.
\<close>

definition texcoord_defs :: Definitions where
  "texcoord_defs =
     [Definition_default,
      Definition_default\<lparr>def_dtype := DT_type, def_type := Some (Scalar ST_float)\<rparr>,
      Definition_default\<lparr>def_dtype := DT_type, def_type := Some (Vector ST_float 2)\<rparr>,
      Definition_default\<lparr>def_dtype := DT_type_pointer, def_type := Some (Vector ST_float 2)\<rparr>,
      example_variable ''texcoord'' (Vector ST_float 2) SpvStorageClassInput (-1)]"

definition input_example_defs :: Definitions where
  "input_example_defs =
     [Definition_default,
      example_variable ''color'' (Vector ST_float 4) SpvStorageClassInput (-1),
      example_variable ''normal'' (Vector ST_float 3) SpvStorageClassInput 1]"

definition input_example_located :: "int \<Rightarrow> Definitions" where
  "input_example_located l =
     [Definition_default,
      example_variable ''color'' (Vector ST_float 4) SpvStorageClassInput l,
      example_variable ''normal'' (Vector ST_float 3) SpvStorageClassInput 1]"

definition assign_example_located :: Definitions where
  "assign_example_located =
     [Definition_default,
      example_variable ''p3d_Vertex'' (Vector ST_float 4) SpvStorageClassInput 0,
      example_variable ''color'' (Vector ST_float 4) SpvStorageClassInput 1,
      example_variable ''mvp'' (Matrix ST_float 4 4) SpvStorageClassUniformConstant 1,
      example_variable ''tex'' (SampledImage TT_2d_texture) SpvStorageClassUniformConstant 0,
      example_variable ''proj'' (Matrix ST_float 4 4) SpvStorageClassUniformConstant 5]"

section \<open>Properties of strip\<close>

lemma is_debug_opcode_iff: "is_debug_opcode opc \<longleftrightarrow> opc \<in> debug_opcodes"
  by (auto simp: is_debug_opcode_def debug_opcodes_def)

lemma split_instructions_chunks:
  "split_instructions ws = Some is \<Longrightarrow>
     concat is = ws \<and>
     (\<forall>c \<in> set is. c \<noteq> [] \<and> unat (drop_bit SpvWordCountShift (hd c)) = length c)"
proof (induction ws arbitrary: "is" rule: split_instructions.induct)
  case 1
  then show ?case by simp
next
  case (2 w ws)
  let ?n = "unat (drop_bit SpvWordCountShift w)"
  from "2.prems" have n: "?n \<noteq> 0" "\<not> length (w # ws) < ?n"
    by (auto simp: Let_def split: if_splits)
  from "2.prems" n obtain tl where tl: "split_instructions (drop ?n (w # ws)) = Some tl"
      and "is": "is = take ?n (w # ws) # tl"
    by (auto simp: Let_def)
  from "2.IH"[OF refl _ tl] n
  have ih: "concat tl = drop ?n (w # ws)"
    "\<forall>c \<in> set tl. c \<noteq> [] \<and> unat (drop_bit SpvWordCountShift (hd c)) = length c"
    by auto
  have hd: "hd (take ?n (w # ws)) = w" using n by (cases ?n) auto
  have len: "length (take ?n (w # ws)) = ?n" using n by simp
  have ne: "take ?n (w # ws) \<noteq> []" using n by (cases ?n) auto
  show ?case using ih hd len ne unfolding "is"
    by (simp del: take_Suc_Cons drop_Suc_Cons take_all_iff take_eq_Nil)
qed

lemma split_instructions_concat:
  "(\<forall>c \<in> set is. c \<noteq> [] \<and> unat (drop_bit SpvWordCountShift (hd c)) = length c) \<Longrightarrow>
     split_instructions (concat is) = Some is"
proof (induction "is")
  case Nil
  then show ?case by simp
next
  case (Cons c cs)
  then obtain w ws where c: "c = w # ws" by (cases c) auto
  from Cons.prems c have n: "unat (drop_bit SpvWordCountShift w) = Suc (length ws)" by simp
  from Cons have ih: "split_instructions (concat cs) = Some cs" by simp
  show ?case unfolding c using n ih by (simp add: Let_def)
qed

lemma strip_loop_split:
  "split_instructions ws = Some is \<Longrightarrow>
     strip_loop copy ws = Inr (copy @ concat (filter kept_by_strip is))"
proof (induction ws arbitrary: "is" copy rule: split_instructions.induct)
  case 1
  then show ?case by simp
next
  case (2 w ws)
  let ?n = "unat (drop_bit SpvWordCountShift w)"
  from "2.prems" have n: "?n \<noteq> 0" "\<not> length (w # ws) < ?n"
    by (auto simp: Let_def split: if_splits)
  from "2.prems" n obtain tl where tl: "split_instructions (drop ?n (w # ws)) = Some tl"
      and "is": "is = take ?n (w # ws) # tl"
    by (auto simp: Let_def)
  have hd: "hd (take ?n (w # ws)) = w" using n by (cases ?n) auto
  have ih: "strip_loop c (drop ?n (w # ws)) = Inr (c @ concat (filter kept_by_strip tl))" for c
    using "2.IH"[OF refl _ tl] n by auto
  have k: "kept_by_strip (take ?n (w # ws)) \<longleftrightarrow> \<not> is_debug_opcode (w AND SpvOpCodeMask)"
    using hd by (simp add: kept_by_strip_def is_debug_opcode_iff)
  show ?case
    unfolding "is" using n ih k
    by (simp add: Let_def del: take_Suc_Cons drop_Suc_Cons)
qed

text \<open>
  C2. For a well-formed stream, \<open>strip\<close> returns the five header words followed by the
  words of exactly those instructions whose opcode is not one of no-op, source,
  source-continued, source-extension, name, member-name, string, line, no-line and
  module-processed, in their order and word for word; and stripping the result again
  returns the same words.
\<close>

theorem strip_drops_exactly_debug_instructions:
  assumes "well_formed words"
  shows "\<exists>out. strip words = Inr out \<and>
           out = take 5 words @ concat (filter kept_by_strip (instruction_words words)) \<and>
           strip out = Inr out"
proof -
  from assms obtain "is" where len: "5 \<le> length words"
      and sp: "split_instructions (drop 5 words) = Some is"
    by (auto simp: well_formed_def)
  let ?out = "take 5 words @ concat (filter kept_by_strip is)"
  have s1: "strip words = Inr ?out"
    using len strip_loop_split[OF sp] by (simp add: strip_def)
  have ch: "\<forall>c \<in> set (filter kept_by_strip is).
              c \<noteq> [] \<and> unat (drop_bit SpvWordCountShift (hd c)) = length c"
    using split_instructions_chunks[OF sp] by auto
  have sp2: "split_instructions (concat (filter kept_by_strip is)) = Some (filter kept_by_strip is)"
    by (rule split_instructions_concat[OF ch])
  have l5: "length (take 5 words) = 5" using len by simp
  have "strip ?out = Inr (take 5 words @ concat (filter kept_by_strip (filter kept_by_strip is)))"
    using strip_loop_split[OF sp2] l5 by (simp add: strip_def)
  then have s2: "strip ?out = Inr ?out" by simp
  show ?thesis using s1 s2 sp by (simp add: instruction_words_def)
qed

lemma strip_example_well_formed: "well_formed strip_example"
  by (simp add: well_formed_def strip_example_def)

lemma strip_example_instruction_words:
  "instruction_words strip_example =
     [[0x00020011, 1], [0x00030005, 1, 0x00000061], [0x00020013, 1],
      [0x00040008, 2, 1, 1], [0x00030016, 2, 32]]"
  by (simp add: instruction_words_def strip_example_def)

theorem strip_drops_exactly_debug_instructions_witness:
  "well_formed strip_example \<and>
   strip strip_example =
     Inr [0x07230203, 0x00010000, 0, 3, 0, 0x00020011, 1, 0x00020013, 1, 0x00030016, 2, 32] \<and>
   strip [0x07230203, 0x00010000, 0, 3, 0, 0x00020011, 1, 0x00020013, 1, 0x00030016, 2, 32] =
     Inr [0x07230203, 0x00010000, 0, 3, 0, 0x00020011, 1, 0x00020013, 1, 0x00030016, 2, 32]"
proof -
  have k: "filter kept_by_strip (instruction_words strip_example) =
             [[0x00020011, 1], [0x00020013, 1], [0x00030016, 2, 32]]"
    by (simp add: strip_example_instruction_words kept_by_strip_def debug_opcodes_def)
  have t: "take 5 strip_example = [0x07230203, 0x00010000, 0, 3, 0]"
    by (simp add: strip_example_def)
  from strip_drops_exactly_debug_instructions[OF strip_example_well_formed]
  show ?thesis
    unfolding k t using strip_example_well_formed by auto
qed

section \<open>Properties of the parser\<close>

lemma parse_loop_Cons:
  assumes "unat (drop_bit SpvWordCountShift w) = Suc (length as)"
  shows "parse_loop defs (w # as @ rest) =
           (case parse_instruction defs (w AND SpvOpCodeMask) as of
              Inl e \<Rightarrow> Inl e
            | Inr (ok, defs') \<Rightarrow> if ok then parse_loop defs' rest else Inr (False, defs'))"
  using assms by (auto simp: Let_def split: sum.splits prod.splits)

lemma parse_loop_append:
  "split_instructions ws = Some cs \<Longrightarrow>
     parse_loop defs (ws @ rest) =
       (case parse_loop defs ws of
          Inl e \<Rightarrow> Inl e
        | Inr (ok, defs') \<Rightarrow> if ok then parse_loop defs' rest else Inr (False, defs'))"
proof (induction ws arbitrary: cs defs rule: split_instructions.induct)
  case 1
  then show ?case by simp
next
  case (2 w ws)
  let ?n = "unat (drop_bit SpvWordCountShift w)"
  from "2.prems" have n: "?n \<noteq> 0" "\<not> length (w # ws) < ?n"
    by (auto simp: Let_def split: if_splits)
  from "2.prems" n obtain tl where tl: "split_instructions (drop ?n (w # ws)) = Some tl"
    by (auto simp: Let_def)
  from n obtain k where k: "?n = Suc k" "k \<le> length ws" by (cases ?n) auto
  have ih: "parse_loop d (drop k ws @ rest) =
       (case parse_loop d (drop k ws) of
          Inl e \<Rightarrow> Inl e
        | Inr (ok, defs') \<Rightarrow> if ok then parse_loop defs' rest else Inr (False, defs'))" for d
    using "2.IH"[OF refl _ tl] n k by simp
  show ?case using k ih
    by (auto simp: Let_def split: sum.splits prod.splits)
qed

text \<open>
  The parse of a well-formed stream, seen from one of its instructions: the instructions
  before it are interpreted first, and if they are all accepted the instruction decides
  how the parse goes on.
\<close>

lemma parse_upto_instruction:
  assumes len: "5 \<le> length words" and magic: "words ! 0 = SpvMagicNumber"
    and sp: "split_instructions (drop 5 words) = Some (pre @ [w # as] @ post)"
  shows "parse words defs =
           (case parse_loop (replicate (unat (words ! 3)) Definition_default) (concat pre) of
              Inl e \<Rightarrow> Inl e
            | Inr (ok, defs') \<Rightarrow>
                if ok then
                  (case parse_instruction defs' (w AND SpvOpCodeMask) as of
                     Inl e \<Rightarrow> Inl e
                   | Inr (ok', defs'') \<Rightarrow>
                       if ok' then parse_loop defs'' (concat post) else Inr (False, defs''))
                else Inr (False, defs'))"
proof -
  from split_instructions_chunks[OF sp]
  have c: "drop 5 words = concat pre @ w # as @ concat post"
    and ch: "\<forall>c \<in> set pre. c \<noteq> [] \<and> unat (drop_bit SpvWordCountShift (hd c)) = length c"
    and n: "unat (drop_bit SpvWordCountShift w) = Suc (length as)"
    by auto
  have spre: "split_instructions (concat pre) = Some pre"
    by (rule split_instructions_concat[OF ch])
  have "parse words defs = parse_loop (replicate (unat (words ! 3)) Definition_default) (drop 5 words)"
    using len magic by (simp add: parse_def)
  then show ?thesis
    unfolding c parse_loop_append[OF spre] parse_loop_Cons[OF n] by simp
qed

lemma parse_at_instruction:
  assumes len: "5 \<le> length words" and magic: "words ! 0 = SpvMagicNumber"
    and sp: "split_instructions (drop 5 words) = Some (pre @ [w # as] @ post)"
    and pre: "parse_loop (replicate (unat (words ! 3)) Definition_default) (concat pre) = Inr (True, defs')"
  shows "parse words defs =
           (case parse_instruction defs' (w AND SpvOpCodeMask) as of
              Inl e \<Rightarrow> Inl e
            | Inr (ok, defs'') \<Rightarrow> if ok then parse_loop defs'' (concat post) else Inr (False, defs''))"
  using parse_upto_instruction[OF len magic sp, of defs] pre by simp

text \<open>
  C5. \<open>parse\<close> returns false, with the caller's table untouched and whatever the
  instructions are, when the buffer has fewer than five words or its first word is not
  the magic number. When the memory-model instruction of a well-formed stream declares
  an addressing model other than Logical or a memory model other than GLSL450, \<open>parse\<close>
  never returns true, and it returns false whenever the interpretation of the
  instructions before it returns.
\<close>

theorem parse_rejects_header_and_memory_model:
  "(length words < 5 \<or> words ! 0 \<noteq> SpvMagicNumber \<longrightarrow> parse words defs = Inr (False, defs)) \<and>
   (5 \<le> length words \<and> words ! 0 = SpvMagicNumber \<and>
    split_instructions (drop 5 words) = Some (pre @ [w # a # m # extra] @ post) \<and>
    w AND SpvOpCodeMask = SpvOpMemoryModel \<and>
    (a \<noteq> SpvAddressingModelLogical \<or> m \<noteq> SpvMemoryModelGLSL450) \<longrightarrow>
      (\<forall>d. parse words defs \<noteq> Inr (True, d)) \<and>
      (\<forall>ok defs'. parse_loop (replicate (unat (words ! 3)) Definition_default) (concat pre)
                  = Inr (ok, defs') \<longrightarrow>
               parse words defs = Inr (False, defs')))"
proof (intro conjI impI)
  assume "length words < 5 \<or> words ! 0 \<noteq> SpvMagicNumber"
  then show "parse words defs = Inr (False, defs)" by (auto simp: parse_def)
next
  assume a: "5 \<le> length words \<and> words ! 0 = SpvMagicNumber \<and>
    split_instructions (drop 5 words) = Some (pre @ [w # a # m # extra] @ post) \<and>
    w AND SpvOpCodeMask = SpvOpMemoryModel \<and>
    (a \<noteq> SpvAddressingModelLogical \<or> m \<noteq> SpvMemoryModelGLSL450)"
  have rej: "parse_instruction d (w AND SpvOpCodeMask) (a # m # extra) = Inr (False, d)" for d
    using a by (auto simp: parse_instruction_def parse_OpMemoryModel_def)
  from a have "parse words defs =
           (case parse_loop (replicate (unat (words ! 3)) Definition_default) (concat pre) of
              Inl e \<Rightarrow> Inl e
            | Inr (ok, defs') \<Rightarrow>
                if ok then
                  (case parse_instruction defs' (w AND SpvOpCodeMask) (a # m # extra) of
                     Inl e \<Rightarrow> Inl e
                   | Inr (ok', defs'') \<Rightarrow>
                       if ok' then parse_loop defs'' (concat post) else Inr (False, defs''))
                else Inr (False, defs'))"
    by (intro parse_upto_instruction) auto
  then have up: "parse words defs =
           (case parse_loop (replicate (unat (words ! 3)) Definition_default) (concat pre) of
              Inl e \<Rightarrow> Inl e
            | Inr (ok, defs') \<Rightarrow> Inr (False, defs'))"
    unfolding rej by (simp split: sum.splits prod.splits)
  show "\<forall>d. parse words defs \<noteq> Inr (True, d)"
    unfolding up by (auto split: sum.splits)
  show "\<forall>ok defs'. parse_loop (replicate (unat (words ! 3)) Definition_default) (concat pre)
                  = Inr (ok, defs') \<longrightarrow> parse words defs = Inr (False, defs')"
    unfolding up by auto
qed

lemma memory_model_example_prefix:
  "parse_loop (replicate 1 Definition_default) [0x00020011, 1]
     = Inr (True, replicate 1 Definition_default)"
  by (simp add: parse_instruction_def Let_def)

theorem parse_rejects_header_and_memory_model_witness:
  "parse [0x07230203, 0x00010000, 0, 1] [] = Inr (False, []) \<and>
   parse [0x07230204, 0x00010000, 0, 1, 0, 0x00020011, 1] [] = Inr (False, []) \<and>
   parse memory_model_example [] = Inr (False, replicate 1 Definition_default)"
proof -
  have 1: "parse [0x07230203, 0x00010000, 0, 1] [] = Inr (False, [])"
    using parse_rejects_header_and_memory_model
            [of "[0x07230203, 0x00010000, 0, 1]" "[]" "[]" 0 0 0 "[]" "[]"]
    by simp
  have 2: "parse [0x07230204, 0x00010000, 0, 1, 0, 0x00020011, 1] [] = Inr (False, [])"
    using parse_rejects_header_and_memory_model
            [of "[0x07230204, 0x00010000, 0, 1, 0, 0x00020011, 1]" "[]" "[]" 0 0 0 "[]" "[]"]
    by simp
  have s: "split_instructions (drop 5 memory_model_example)
             = Some ([[0x00020011, 1]] @ [[0x0003000e, 1, 1]] @ [])"
    by (simp add: memory_model_example_def)
  have "\<forall>ok defs'. parse_loop (replicate (unat (memory_model_example ! 3)) Definition_default)
                         (concat [[0x00020011, 1]]) = Inr (ok, defs') \<longrightarrow>
                       parse memory_model_example [] = Inr (False, defs')"
    using parse_rejects_header_and_memory_model
            [of memory_model_example "[]" "[[0x00020011, 1]]" "0x0003000e" 1 1 "[]" "[]"] s
    by (simp add: memory_model_example_def del: parse_loop.simps)
  moreover have "unat (memory_model_example ! 3) = 1" "concat [[0x00020011, 1 :: u32]] = [0x00020011, 1]"
    by (simp_all add: memory_model_example_def)
  ultimately have 3: "parse memory_model_example [] = Inr (False, replicate 1 Definition_default)"
    using memory_model_example_prefix by (auto simp del: parse_loop.simps)
  show ?thesis using 1 2 3 by simp
qed

lemma struct_members_result:
  "(\<forall>a \<in> set as. unat a < length defs) \<Longrightarrow> i + length as \<le> length names \<Longrightarrow>
     struct_members defs names i as =
       Inr (zip (map (\<lambda>a. def_type (defs ! unat a)) as) (drop i names))"
proof (induction as arbitrary: i)
  case Nil
  then show ?case by simp
next
  case (Cons a as)
  from Cons.prems have i: "i < length names" by simp
  from Cons.prems have "struct_members defs names (Suc i) as =
       Inr (zip (map (\<lambda>a. def_type (defs ! unat a)) as) (drop (Suc i) names))"
    by (intro Cons.IH) auto
  moreover have "drop i names = names ! i # drop (Suc i) names"
    using i by (simp add: Cons_nth_drop_Suc)
  ultimately show ?case using Cons.prems i by simp
qed

text \<open>
  C6, as the code has it. The claim fails for array and struct types: an array type
  instruction whose element definition has no type is skipped and the parse returns
  true, and a struct type instruction with a member whose definition has no type is
  accepted, the member getting the null type.
\<close>

theorem unresolved_element_is_accepted:
  "def_type (replicate 4 Definition_default ! 2) = None \<and>
   parse array_example [] = Inr (True, replicate 4 Definition_default) \<and>
   def_type (replicate 3 Definition_default ! 2) = None \<and>
   parse struct_example [] =
     Inr (True,
          [Definition_default,
           Definition_default\<lparr>def_dtype := DT_type, def_type := Some (Struct [(None, ''a'')]),
                               def_member_names := [''a'']\<rparr>,
           Definition_default])"
  by code_simp

text \<open>
  C6, amended. When the instructions before it are accepted and its component definition
  (the second argument) has no type, a vector or matrix type instruction makes the whole
  parse return false, while an array type instruction is skipped and the parse goes on
  with the table unchanged. A struct type instruction whose ids are in the table and
  for whose members the names have been recorded (by the member-name instructions before
  it) is accepted whatever the types of its members: the parse goes on with the struct
  type set, each member with the type of its definition, null when that has none.
\<close>

theorem unresolved_component_type:
  "(5 \<le> length words \<and> words ! 0 = SpvMagicNumber \<and>
    split_instructions (drop 5 words) = Some (pre @ [w # r # e # extra] @ post) \<and>
    parse_loop (replicate (unat (words ! 3)) Definition_default) (concat pre) = Inr (True, defs') \<and>
    unat e < length defs' \<and> def_type (defs' ! unat e) = None \<longrightarrow>
      (w AND SpvOpCodeMask = SpvOpTypeVector \<or> w AND SpvOpCodeMask = SpvOpTypeMatrix \<longrightarrow>
         parse words defs = Inr (False, defs')) \<and>
      (w AND SpvOpCodeMask = SpvOpTypeArray \<longrightarrow>
         parse words defs = parse_loop defs' (concat post))) \<and>
   (5 \<le> length words \<and> words ! 0 = SpvMagicNumber \<and>
    split_instructions (drop 5 words) = Some (pre @ [w # r # members] @ post) \<and>
    parse_loop (replicate (unat (words ! 3)) Definition_default) (concat pre) = Inr (True, defs') \<and>
    w AND SpvOpCodeMask = SpvOpTypeStruct \<and>
    unat r < length defs' \<and> (\<forall>a \<in> set members. unat a < length defs') \<and>
    length members \<le> length (def_member_names (defs' ! unat r)) \<longrightarrow>
      parse words defs =
        parse_loop
          (defs'[unat r :=
             set_type (defs' ! unat r)
               (Some (Struct (zip (map (\<lambda>a. def_type (defs' ! unat a)) members)
                                  (def_member_names (defs' ! unat r)))))])
          (concat post))"
proof (intro conjI impI)
  assume a: "5 \<le> length words \<and> words ! 0 = SpvMagicNumber \<and>
    split_instructions (drop 5 words) = Some (pre @ [w # r # e # extra] @ post) \<and>
    parse_loop (replicate (unat (words ! 3)) Definition_default) (concat pre) = Inr (True, defs') \<and>
    unat e < length defs' \<and> def_type (defs' ! unat e) = None"
  then have at: "parse words defs =
           (case parse_instruction defs' (w AND SpvOpCodeMask) (r # e # extra) of
              Inl e \<Rightarrow> Inl e
            | Inr (ok, defs'') \<Rightarrow> if ok then parse_loop defs'' (concat post) else Inr (False, defs''))"
    using parse_at_instruction[of words pre w "r # e # extra" post defs' defs] by simp
  {
    assume "w AND SpvOpCodeMask = SpvOpTypeVector \<or> w AND SpvOpCodeMask = SpvOpTypeMatrix"
    then have "parse_instruction defs' (w AND SpvOpCodeMask) (r # e # extra) = Inr (False, defs')"
      using a by (auto simp: parse_instruction_def parse_OpTypeVector_def parse_OpTypeMatrix_def)
    then show "parse words defs = Inr (False, defs')" using at by simp
  }
  {
    assume "w AND SpvOpCodeMask = SpvOpTypeArray"
    then have "parse_instruction defs' (w AND SpvOpCodeMask) (r # e # extra) = Inr (True, defs')"
      using a by (auto simp: parse_instruction_def parse_OpTypeArray_def)
    then show "parse words defs = parse_loop defs' (concat post)" using at by simp
  }
next
  let ?names = "def_member_names (defs' ! unat r)"
  let ?ms = "zip (map (\<lambda>a. def_type (defs' ! unat a)) members) ?names"
  assume a: "5 \<le> length words \<and> words ! 0 = SpvMagicNumber \<and>
    split_instructions (drop 5 words) = Some (pre @ [w # r # members] @ post) \<and>
    parse_loop (replicate (unat (words ! 3)) Definition_default) (concat pre) = Inr (True, defs') \<and>
    w AND SpvOpCodeMask = SpvOpTypeStruct \<and>
    unat r < length defs' \<and> (\<forall>a \<in> set members. unat a < length defs') \<and>
    length members \<le> length ?names"
  then have at: "parse words defs =
           (case parse_instruction defs' (w AND SpvOpCodeMask) (r # members) of
              Inl e \<Rightarrow> Inl e
            | Inr (ok, defs'') \<Rightarrow> if ok then parse_loop defs'' (concat post) else Inr (False, defs''))"
    using parse_at_instruction[of words pre w "r # members" post defs' defs] by simp
  from a have "struct_members defs' ?names 0 members = Inr ?ms"
    using struct_members_result[of members defs' 0 ?names] by simp
  then have "parse_instruction defs' (w AND SpvOpCodeMask) (r # members) =
      Inr (True, defs'[unat r := set_type (defs' ! unat r) (Some (Struct ?ms))])"
    using a by (simp add: parse_instruction_def parse_OpTypeStruct_def update_def_def)
  then show "parse words defs =
      parse_loop (defs'[unat r := set_type (defs' ! unat r) (Some (Struct ?ms))]) (concat post)"
    using at by simp
qed

lemma vector_example_prefix:
  "parse_loop (replicate 4 Definition_default) [0x00020011, 1]
     = Inr (True, replicate 4 Definition_default)"
  by (simp add: parse_instruction_def Let_def)

lemma struct_example_prefix:
  "parse_loop (replicate 3 Definition_default) [0x00040006, 1, 0, 0x00000061]
     = Inr (True, [Definition_default, Definition_default\<lparr>def_member_names := [''a'']\<rparr>,
                   Definition_default])"
  by code_simp

theorem unresolved_component_type_witness:
  "parse vector_example [] = Inr (False, replicate 4 Definition_default) \<and>
   parse array_example [] = Inr (True, replicate 4 Definition_default) \<and>
   parse struct_example [] =
     Inr (True,
          [Definition_default,
           Definition_default\<lparr>def_dtype := DT_type, def_type := Some (Struct [(None, ''a'')]),
                               def_member_names := [''a'']\<rparr>,
           Definition_default])"
proof -
  let ?d = "replicate 4 Definition_default"
  have s1: "split_instructions (drop 5 vector_example)
              = Some ([[0x00020011, 1]] @ [[0x00040017, 1, 2, 4]] @ [])"
    by (simp add: vector_example_def)
  have s2: "split_instructions (drop 5 array_example) = Some ([] @ [[0x0004001c, 1, 2, 3]] @ [])"
    by (simp add: array_example_def)
  have n: "def_type (?d ! unat (2 :: u32)) = None" by (simp add: Definition_default_def)
  have v: "parse vector_example [] = Inr (False, ?d)"
    using unresolved_component_type
            [of vector_example "[[0x00020011, 1]]" "0x00040017" 1 2 "[4]" "[]" ?d "[]" "[]"]
      s1 n vector_example_prefix
    by (simp add: vector_example_def)
  have a: "parse array_example [] = Inr (True, ?d)"
    using unresolved_component_type
            [of array_example "[]" "0x0004001c" 1 2 "[3]" "[]" ?d "[]" "[]"]
      s2 n
    by (simp add: array_example_def)
  let ?e = "[Definition_default, Definition_default\<lparr>def_member_names := [''a'']\<rparr>,
             Definition_default]"
  have s3: "split_instructions (drop 5 struct_example)
              = Some ([[0x00040006, 1, 0, 0x00000061]] @ [[0x0003001e, 1, 2]] @ [])"
    by (simp add: struct_example_def)
  have p3: "parse_loop (replicate (unat (struct_example ! 3)) Definition_default)
              (concat [[0x00040006, 1, 0, 0x00000061]]) = Inr (True, ?e)"
    using struct_example_prefix by (simp add: struct_example_def)
  have h3: "5 \<le> length struct_example \<and> struct_example ! 0 = SpvMagicNumber \<and>
    split_instructions (drop 5 struct_example)
      = Some ([[0x00040006, 1, 0, 0x00000061]] @ [0x0003001e # 1 # [2]] @ []) \<and>
    parse_loop (replicate (unat (struct_example ! 3)) Definition_default)
      (concat [[0x00040006, 1, 0, 0x00000061]]) = Inr (True, ?e) \<and>
    (0x0003001e :: u32) AND SpvOpCodeMask = SpvOpTypeStruct \<and>
    unat (1 :: u32) < length ?e \<and> (\<forall>a \<in> set [2 :: u32]. unat a < length ?e) \<and>
    length [2 :: u32] \<le> length (def_member_names (?e ! unat (1 :: u32)))"
    using s3 p3 by (simp add: struct_example_def)
  have s: "parse struct_example [] =
     Inr (True,
          [Definition_default,
           Definition_default\<lparr>def_dtype := DT_type, def_type := Some (Struct [(None, ''a'')]),
                               def_member_names := [''a'']\<rparr>,
           Definition_default])"
    using unresolved_component_type
            [THEN conjunct2, rule_format, OF h3, of "[]"]
    by (simp add: set_type_def Definition_default_def)
  show ?thesis using v a s by blast
qed

section \<open>Properties of remap_locations\<close>

lemma is_location_decoration_with_location:
  "is_location_decoration (with_location ins l) v = is_location_decoration ins v"
  by (auto simp: is_location_decoration_def with_location_def)

lemma is_location_decoration_inj:
  "is_location_decoration ins v \<Longrightarrow> is_location_decoration ins v' \<Longrightarrow> v = v'"
  by (simp add: is_location_decoration_def)

lemma not_decoration_and_variable:
  "is_location_decoration ins v \<Longrightarrow> \<not> is_variable_of sc ins v'"
  by (simp add: is_location_decoration_def is_variable_of_def)

lemma nth_update_with_location:
  "q < length done \<Longrightarrow>
     is_location_decoration (done[p := with_location (done ! p) l] ! q) v
       = is_location_decoration (done ! q) v"
  by (cases "p = q") (simp_all add: is_location_decoration_with_location)

lemma remap_step_cases:
  assumes "remap_step sc locs decs done ins = Inr (decs', done')"
  shows "decs' = (if opcode ins = SpvOpDecorate \<and> 3 \<le> length (args ins) \<and> args ins ! 1 = SpvDecorationLocation
                  then decs(args ins ! 0 \<mapsto> length done) else decs) \<and>
         (done' = done @ [ins] \<or>
          (\<exists>p l. is_variable_of sc ins (args ins ! 1) \<and> decs (args ins ! 1) = Some p \<and>
                 locs (sint (args (done ! p) ! 2)) = Some l \<and>
                 done' = done[p := with_location (done ! p) l] @ [ins]))"
  using assms
  by (auto simp: remap_step_def is_variable_of_def with_location_def split: if_splits option.splits)

lemma remap_step_length:
  "remap_step sc locs decs done ins = Inr (decs', done') \<Longrightarrow> length done' = Suc (length done)"
  by (drule remap_step_cases) auto

lemma remap_step_last:
  "remap_step sc locs decs done ins = Inr (decs', done') \<Longrightarrow> done' ! length done = ins"
  by (drule remap_step_cases) (auto simp: nth_append)

lemma remap_step_decs:
  "remap_step sc locs decs done ins = Inr (decs', done') \<Longrightarrow>
     decs' v = (if is_location_decoration ins v then Some (length done) else decs v)"
  by (drule remap_step_cases) (auto simp: is_location_decoration_def)

lemma remap_step_keep:
  assumes "remap_step sc locs decs done ins = Inr (decs', done')" "p < length done"
    and "\<forall>v. decs v = Some p \<longrightarrow> \<not> is_variable_of sc ins v"
  shows "done' ! p = done ! p"
proof -
  from remap_step_cases[OF assms(1)] consider "done' = done @ [ins]"
    | q l where "is_variable_of sc ins (args ins ! 1)" "decs (args ins ! 1) = Some q"
        "done' = done[q := with_location (done ! q) l] @ [ins]"
    by auto
  then show ?thesis
  proof cases
    case 1
    then show ?thesis using assms(2) by (simp add: nth_append)
  next
    case 2
    with assms(3) have "q \<noteq> p" by auto
    then show ?thesis using 2 assms(2) by (simp add: nth_append)
  qed
qed

lemma remap_step_hit:
  assumes "remap_step sc locs decs done ins = Inr (decs', done')" "decs_ok decs done"
    and "decs v = Some p" "is_variable_of sc ins v" "locs (sint (args (done ! p) ! 2)) = Some l"
  shows "done' ! p = with_location (done ! p) l"
proof -
  from assms(2,3) have p: "p < length done" by (auto simp: decs_ok_def)
  from assms(4) have v: "args ins ! 1 = v" "opcode ins = SpvOpVariable" "3 \<le> length (args ins)"
    "args ins ! 2 = sc"
    by (auto simp: is_variable_of_def)
  from assms(1) v assms(3,5) have "done' = done[p := with_location (done ! p) l] @ [ins]"
    by (auto simp: remap_step_def with_location_def split: if_splits)
  then show ?thesis using p by (simp add: nth_append)
qed

lemma remap_step_ok:
  assumes "remap_step sc locs decs done ins = Inr (decs', done')" "decs_ok decs done"
  shows "decs_ok decs' done'"
proof -
  from remap_step_cases[OF assms(1)]
  have d: "decs' = (if opcode ins = SpvOpDecorate \<and> 3 \<le> length (args ins) \<and> args ins ! 1 = SpvDecorationLocation
                  then decs(args ins ! 0 \<mapsto> length done) else decs)"
    and c: "done' = done @ [ins] \<or>
          (\<exists>p l. done' = done[p := with_location (done ! p) l] @ [ins])"
    by auto
  have len: "length done' = Suc (length done)" using c by auto
  have last: "done' ! length done = ins" using c by (auto simp: nth_append)
  have old: "is_location_decoration (done' ! q) v" if "q < length done" "is_location_decoration (done ! q) v" for q v
    using c that by (auto simp: nth_append nth_update_with_location)
  show ?thesis
    unfolding decs_ok_def
  proof (intro allI impI)
    fix v p assume vp: "decs' v = Some p"
    show "p < length done' \<and> is_location_decoration (done' ! p) v"
    proof (cases "decs v = Some p")
      case True
      with assms(2) have "p < length done" "is_location_decoration (done ! p) v"
        by (auto simp: decs_ok_def)
      then show ?thesis using old len by simp
    next
      case False
      with vp d have "opcode ins = SpvOpDecorate \<and> 3 \<le> length (args ins) \<and> args ins ! 1 = SpvDecorationLocation"
        "v = args ins ! 0" "p = length done"
        by (auto split: if_splits)
      then show ?thesis using last len by (simp add: is_location_decoration_def)
    qed
  qed
qed

lemma remap_loop_length:
  "remap_loop sc locs decs done rest = Inr out \<Longrightarrow> length out = length done + length rest"
proof (induction rest arbitrary: decs "done")
  case Nil
  then show ?case by simp
next
  case (Cons ins rest)
  then show ?case
    by (auto split: sum.splits dest!: remap_step_length)
qed

lemma remap_loop_keep_done:
  assumes "remap_loop sc locs decs done rest = Inr out" "decs_ok decs done" "p < length done"
    and "\<forall>v. decs v = Some p \<longrightarrow> (\<forall>ins \<in> set rest. \<not> is_variable_of sc ins v)"
  shows "out ! p = done ! p"
  using assms
proof (induction rest arbitrary: decs "done")
  case Nil
  then show ?case by simp
next
  case (Cons ins rest)
  from Cons.prems(1) obtain decs' done' where
    st: "remap_step sc locs decs done ins = Inr (decs', done')"
    and lp: "remap_loop sc locs decs' done' rest = Inr out"
    by (auto split: sum.splits)
  have k: "done' ! p = done ! p"
    using remap_step_keep[OF st Cons.prems(3)] Cons.prems(4) by simp
  have "\<forall>v. decs' v = Some p \<longrightarrow> (\<forall>ins \<in> set rest. \<not> is_variable_of sc ins v)"
    using remap_step_decs[OF st] Cons.prems(3,4) by (auto split: if_splits)
  from Cons.IH[OF lp remap_step_ok[OF st Cons.prems(2)] _ this]
  show ?case using k remap_step_length[OF st] Cons.prems(3) by simp
qed

lemma remap_loop_keep_rest:
  assumes "remap_loop sc locs decs done rest = Inr out" "decs_ok decs done" "j < length rest"
    and "\<forall>k. j < k \<and> k < length rest \<longrightarrow> \<not> is_variable_of sc (rest ! k) (args (rest ! j) ! 0)"
  shows "out ! (length done + j) = rest ! j"
  using assms
proof (induction rest arbitrary: decs "done" j)
  case Nil
  then show ?case by simp
next
  case (Cons ins rest)
  from Cons.prems(1) obtain decs' done' where
    st: "remap_step sc locs decs done ins = Inr (decs', done')"
    and lp: "remap_loop sc locs decs' done' rest = Inr out"
    by (auto split: sum.splits)
  note ok = remap_step_ok[OF st Cons.prems(2)]
  note len = remap_step_length[OF st]
  show ?case
  proof (cases j)
    case 0
    have novar: "\<forall>i \<in> set rest. \<not> is_variable_of sc i (args ins ! 0)"
    proof
      fix i assume "i \<in> set rest"
      then obtain k where "k < length rest" "rest ! k = i" by (auto simp: in_set_conv_nth)
      then show "\<not> is_variable_of sc i (args ins ! 0)"
        using Cons.prems(4)[rule_format, of "Suc k"] 0 by simp
    qed
    have "\<forall>v. decs' v = Some (length done) \<longrightarrow> (\<forall>i \<in> set rest. \<not> is_variable_of sc i v)"
    proof (intro allI impI)
      fix v assume v: "decs' v = Some (length done)"
      have "is_location_decoration ins v"
      proof (rule ccontr)
        assume "\<not> is_location_decoration ins v"
        with remap_step_decs[OF st, of v] v have "decs v = Some (length done)" by simp
        with Cons.prems(2) show False by (auto simp: decs_ok_def)
      qed
      then have "v = args ins ! 0" by (simp add: is_location_decoration_def)
      then show "\<forall>i \<in> set rest. \<not> is_variable_of sc i v" using novar by simp
    qed
    from remap_loop_keep_done[OF lp ok _ this] len
    have "out ! length done = done' ! length done" by simp
    then show ?thesis using remap_step_last[OF st] 0 by simp
  next
    case (Suc j')
    have "\<forall>k. j' < k \<and> k < length rest \<longrightarrow> \<not> is_variable_of sc (rest ! k) (args (rest ! j') ! 0)"
      using Cons.prems(4) Suc by (auto dest: spec[of _ "Suc _"])
    from Cons.IH[OF lp ok _ this] Cons.prems(3) Suc len
    show ?thesis by simp
  qed
qed

lemma remap_loop_hit_done:
  assumes "remap_loop sc locs decs done rest = Inr out" "decs_ok decs done"
    and "decs v = Some p" "k < length rest" "is_variable_of sc (rest ! k) v"
    and "\<forall>i < length rest. i \<noteq> k \<longrightarrow> \<not> is_variable_of sc (rest ! i) v"
    and "\<forall>i < k. \<not> is_location_decoration (rest ! i) v"
    and "locs (sint (args (done ! p) ! 2)) = Some l"
  shows "out ! p = with_location (done ! p) l"
  using assms
proof (induction rest arbitrary: decs "done" k)
  case Nil
  then show ?case by simp
next
  case (Cons ins rest)
  from Cons.prems(1) obtain decs' done' where
    st: "remap_step sc locs decs done ins = Inr (decs', done')"
    and lp: "remap_loop sc locs decs' done' rest = Inr out"
    by (auto split: sum.splits)
  note ok = remap_step_ok[OF st Cons.prems(2)]
  note len = remap_step_length[OF st]
  from Cons.prems(2,3) have p: "p < length done" "is_location_decoration (done ! p) v"
    by (auto simp: decs_ok_def)
  have same: "v' = v" if "decs v' = Some p" for v'
  proof -
    from that Cons.prems(2) have "is_location_decoration (done ! p) v'"
      by (auto simp: decs_ok_def)
    then show ?thesis using p(2) by (rule is_location_decoration_inj)
  qed
  show ?case
  proof (cases k)
    case 0
    then have var: "is_variable_of sc ins v" using Cons.prems(5) by simp
    have hit: "done' ! p = with_location (done ! p) l"
      by (rule remap_step_hit[OF st Cons.prems(2,3) var Cons.prems(8)])
    have nl: "\<not> is_location_decoration ins v'" for v'
      using var by (auto simp: is_location_decoration_def is_variable_of_def)
    have "\<forall>v'. decs' v' = Some p \<longrightarrow> (\<forall>i \<in> set rest. \<not> is_variable_of sc i v')"
    proof (intro allI impI ballI)
      fix v' i assume v': "decs' v' = Some p" and i: "i \<in> set rest"
      from v' remap_step_decs[OF st, of v'] nl have "decs v' = Some p" by simp
      then have "v' = v" by (rule same)
      moreover from i obtain n where "n < length rest" "rest ! n = i" by (auto simp: in_set_conv_nth)
      ultimately show "\<not> is_variable_of sc i v'"
        using Cons.prems(6)[rule_format, of "Suc n"] 0 by simp
    qed
    from remap_loop_keep_done[OF lp ok _ this] p len hit show ?thesis by simp
  next
    case (Suc k')
    have nv: "\<not> is_variable_of sc ins v" using Cons.prems(6)[rule_format, of 0] Suc by simp
    have nd: "\<not> is_location_decoration ins v" using Cons.prems(7)[rule_format, of 0] Suc by simp
    have d': "decs' v = Some p" using remap_step_decs[OF st, of v] nd Cons.prems(3) by simp
    have keep: "done' ! p = done ! p"
      using remap_step_keep[OF st p(1)] same nv by auto
    have a: "k' < length rest" "is_variable_of sc (rest ! k') v"
      using Cons.prems(4,5) Suc by auto
    have b: "\<forall>i < length rest. i \<noteq> k' \<longrightarrow> \<not> is_variable_of sc (rest ! i) v"
      using Cons.prems(6) Suc by (auto dest: spec[of _ "Suc _"])
    have c: "\<forall>i < k'. \<not> is_location_decoration (rest ! i) v"
      using Cons.prems(7) Suc by (auto dest: spec[of _ "Suc _"])
    from Cons.IH[OF lp ok d' a b c] keep Cons.prems(8) show ?thesis by simp
  qed
qed

lemma remap_loop_hit_rest:
  assumes "remap_loop sc locs decs done rest = Inr out" "decs_ok decs done"
    and "j < k" "k < length rest" "is_location_decoration (rest ! j) v"
    and "is_variable_of sc (rest ! k) v"
    and "\<forall>i < length rest. i \<noteq> k \<longrightarrow> \<not> is_variable_of sc (rest ! i) v"
    and "\<forall>i. j < i \<and> i < k \<longrightarrow> \<not> is_location_decoration (rest ! i) v"
    and "locs (sint (args (rest ! j) ! 2)) = Some l"
  shows "out ! (length done + j) = with_location (rest ! j) l"
  using assms
proof (induction rest arbitrary: decs "done" j k)
  case Nil
  then show ?case by simp
next
  case (Cons ins rest)
  from Cons.prems(1) obtain decs' done' where
    st: "remap_step sc locs decs done ins = Inr (decs', done')"
    and lp: "remap_loop sc locs decs' done' rest = Inr out"
    by (auto split: sum.splits)
  note ok = remap_step_ok[OF st Cons.prems(2)]
  note len = remap_step_length[OF st]
  from Cons.prems(3) obtain k' where k: "k = Suc k'" by (cases k) auto
  have a: "k' < length rest" "is_variable_of sc (rest ! k') v"
    using Cons.prems(4,6) k by auto
  have b: "\<forall>i < length rest. i \<noteq> k' \<longrightarrow> \<not> is_variable_of sc (rest ! i) v"
    using Cons.prems(7) k by (auto dest: spec[of _ "Suc _"])
  show ?case
  proof (cases j)
    case 0
    then have dec: "is_location_decoration ins v" using Cons.prems(5) by simp
    have d': "decs' v = Some (length done)" using remap_step_decs[OF st, of v] dec by simp
    have last: "done' ! length done = ins" by (rule remap_step_last[OF st])
    have c: "\<forall>i < k'. \<not> is_location_decoration (rest ! i) v"
      using Cons.prems(8) k 0 by (auto dest: spec[of _ "Suc _"])
    have l: "locs (sint (args (done' ! length done) ! 2)) = Some l"
      using Cons.prems(9) 0 last by simp
    from remap_loop_hit_done[OF lp ok d' a b c l] last 0 show ?thesis by simp
  next
    case (Suc j')
    have c: "\<forall>i. j' < i \<and> i < k' \<longrightarrow> \<not> is_location_decoration (rest ! i) v"
      using Cons.prems(8) k Suc by (auto dest: spec[of _ "Suc _"])
    have "out ! (length done' + j') = with_location (rest ! j') l"
      using Cons.IH[OF lp ok _ a(1) _ a(2) b c] Cons.prems(3,5,9) k Suc by simp
    then show ?thesis using len Suc by simp
  qed
qed

lemma remap_loop_total:
  "\<forall>ins \<in> set rest. remap_readable ins \<Longrightarrow> \<exists>out. remap_loop sc locs decs done rest = Inr out"
proof (induction rest arbitrary: decs "done")
  case Nil
  then show ?case by simp
next
  case (Cons ins rest)
  from Cons.prems have "remap_readable ins" by simp
  then have "\<exists>r. remap_step sc locs decs done ins = Inr r"
    by (auto simp: remap_step_def remap_readable_def split: option.splits)
  then obtain decs' done' where "remap_step sc locs decs done ins = Inr (decs', done')"
    by auto
  then show ?case using Cons by auto
qed

lemma decs_ok_empty: "decs_ok Map.empty []"
  by (simp add: decs_ok_def)

text \<open>
  C10. \<open>remap_locations\<close> leaves a location decoration as it is when no variable
  instruction of its id and of the given storage class comes after it in the stream,
  whether or not its location is in the map: a decoration is rewritten only if it comes
  before the variable instruction.
\<close>

theorem remap_locations_skips_late_decorations:
  assumes "remap_locations storage_class locations instrs = Inr out"
    and "j < length instrs" and "is_location_decoration (instrs ! j) v"
    and "\<forall>k. j < k \<and> k < length instrs \<longrightarrow> \<not> is_variable_of storage_class (instrs ! k) v"
  shows "length out = length instrs \<and> out ! j = instrs ! j"
proof -
  from assms(3) have v: "args (instrs ! j) ! 0 = v" by (simp add: is_location_decoration_def)
  from assms(1) have lp: "remap_loop storage_class locations Map.empty [] instrs = Inr out"
    by (simp add: remap_locations_def)
  from remap_loop_keep_rest[OF lp decs_ok_empty assms(2)] assms(4) v
  have "out ! j = instrs ! j" by simp
  then show ?thesis using remap_loop_length[OF lp] by simp
qed

theorem remap_locations_skips_late_decorations_witness:
  "\<exists>out. remap_locations SpvStorageClassInput (map_of [(5, 2)])
            (texcoord_instructions
             @ [\<lparr>opcode = SpvOpDecorate, args = [4, SpvDecorationLocation, 5]\<rparr>]) = Inr out \<and>
          map_of [(5, 2 :: int)] (sint (5 :: u32)) = Some 2 \<and>
          out ! 4 = \<lparr>opcode = SpvOpDecorate, args = [4, SpvDecorationLocation, 5]\<rparr>"
proof -
  let ?instrs = "texcoord_instructions
                 @ [\<lparr>opcode = SpvOpDecorate, args = [4, SpvDecorationLocation, 5]\<rparr>]"
  have r: "remap_locations SpvStorageClassInput (map_of [(5, 2)]) ?instrs = Inr ?instrs"
    by (simp add: remap_locations_def remap_step_def texcoord_instructions_def)
  have j: "4 < length ?instrs" by (simp add: texcoord_instructions_def)
  have d: "is_location_decoration (?instrs ! 4) 4"
    by (simp add: texcoord_instructions_def is_location_decoration_def)
  have n: "\<forall>k. 4 < k \<and> k < length ?instrs \<longrightarrow> \<not> is_variable_of SpvStorageClassInput (?instrs ! k) 4"
    by (auto simp: texcoord_instructions_def)
  from remap_locations_skips_late_decorations[OF r j d n]
  have "?instrs ! 4 = \<lparr>opcode = SpvOpDecorate, args = [4, SpvDecorationLocation, 5]\<rparr>"
    by (simp add: texcoord_instructions_def)
  then show ?thesis using r by simp
qed

section \<open>Properties of link_inputs\<close>

lemma link_loop_fails:
  "\<exists>input \<in> set ins. find_output prev (var_name input) < 0 \<or> \<not> has_location (matched_output prev input) \<Longrightarrow>
     link_loop prev acc ins = None"
  by (induction ins arbitrary: acc) (auto simp: Let_def matched_output_def)

lemma link_loop_succeeds:
  "\<forall>input \<in> set ins. 0 \<le> find_output prev (var_name input) \<and> has_location (matched_output prev input) \<Longrightarrow>
     \<exists>remap. link_loop prev acc ins = Some remap"
  by (induction ins arbitrary: acc) (auto simp: Let_def matched_output_def)

lemma link_loop_untouched:
  "link_loop prev acc ins = Some remap \<Longrightarrow> L \<notin> var_location ` set ins \<Longrightarrow>
     map_of remap L = map_of acc L"
  by (induction ins arbitrary: acc) (auto simp: Let_def split: if_splits)

lemma link_loop_maps:
  "link_loop prev acc ins = Some remap \<Longrightarrow> distinct (map var_location ins) \<Longrightarrow>
   input \<in> set ins \<Longrightarrow> var_location (matched_output prev input) \<noteq> var_location input \<Longrightarrow>
     map_of remap (var_location input) = Some (var_location (matched_output prev input))"
proof (induction ins arbitrary: acc)
  case Nil
  then show ?case by simp
next
  case (Cons x xs)
  show ?case
  proof (cases "input = x")
    case True
    from Cons.prems(1,4) True
    have lp: "link_loop prev ((var_location x, var_location (matched_output prev x)) # acc) xs = Some remap"
      by (auto simp: Let_def matched_output_def split: if_splits)
    from Cons.prems(2) have "var_location x \<notin> var_location ` set xs" by simp
    from link_loop_untouched[OF lp this] True show ?thesis by simp
  next
    case False
    with Cons.prems(3) have i: "input \<in> set xs" by simp
    from Cons.prems(1) obtain acc' where "link_loop prev acc' xs = Some remap"
      by (auto simp: Let_def split: if_splits)
    from Cons.IH[OF this _ i Cons.prems(4)] Cons.prems(2) show ?thesis by simp
  qed
qed

text \<open>
  C7. \<open>link_inputs\<close> returns false when the previous module is not of the same kind, when
  its stage is not strictly earlier, when an input has no output of its name in the
  previous module, or when a matched output has no location; and whenever it returns
  false the module, its instructions included, is as it was.
\<close>

theorem link_inputs_failure:
  "(\<not> m_is_spirv previous \<longrightarrow> link_inputs this previous = Inr (False, this)) \<and>
   (stage_index (m_stage this) \<le> stage_index (m_stage previous) \<longrightarrow>
      link_inputs this previous = Inr (False, this)) \<and>
   ((\<exists>input \<in> set (m_inputs this). find_output previous (var_name input) < 0) \<longrightarrow>
      link_inputs this previous = Inr (False, this)) \<and>
   ((\<exists>input \<in> set (m_inputs this). \<not> has_location (matched_output previous input)) \<longrightarrow>
      link_inputs this previous = Inr (False, this)) \<and>
   (\<forall>m. link_inputs this previous = Inr (False, m) \<longrightarrow> m = this)"
proof (intro conjI impI allI)
  show "link_inputs this previous = Inr (False, this)" if "\<not> m_is_spirv previous"
    using that by (simp add: link_inputs_def)
  show "link_inputs this previous = Inr (False, this)"
    if "stage_index (m_stage this) \<le> stage_index (m_stage previous)"
    using that by (simp add: link_inputs_def)
  show "link_inputs this previous = Inr (False, this)"
    if "\<exists>input \<in> set (m_inputs this). find_output previous (var_name input) < 0"
  proof -
    from that have "link_loop previous [] (m_inputs this) = None"
      by (intro link_loop_fails) auto
    then show ?thesis by (simp add: link_inputs_def)
  qed
  show "link_inputs this previous = Inr (False, this)"
    if "\<exists>input \<in> set (m_inputs this). \<not> has_location (matched_output previous input)"
  proof -
    from that have "link_loop previous [] (m_inputs this) = None"
      by (intro link_loop_fails) auto
    then show ?thesis by (simp add: link_inputs_def)
  qed
  show "m = this" if "link_inputs this previous = Inr (False, m)" for m
    using that by (auto simp: link_inputs_def split: if_splits option.splits sum.splits)
qed

theorem link_inputs_failure_witness:
  "link_inputs (link_this ''texcoord'' 0 texcoord_instructions) (link_previous\<lparr>m_is_spirv := False\<rparr>)
     = Inr (False, link_this ''texcoord'' 0 texcoord_instructions) \<and>
   link_inputs link_previous (link_this ''texcoord'' 0 texcoord_instructions)
     = Inr (False, link_previous) \<and>
   link_inputs (link_this ''color'' 0 texcoord_instructions) link_previous
     = Inr (False, link_this ''color'' 0 texcoord_instructions) \<and>
   link_inputs (link_this ''texcoord'' 0 texcoord_instructions)
       (link_previous\<lparr>m_outputs := [\<lparr>var_type = None, var_name = ''texcoord'', var_location = -1\<rparr>]\<rparr>)
     = Inr (False, link_this ''texcoord'' 0 texcoord_instructions)"
proof -
  let ?B = "link_this ''texcoord'' 0 texcoord_instructions"
  let ?unlocated =
    "link_previous\<lparr>m_outputs := [\<lparr>var_type = None, var_name = ''texcoord'', var_location = -1\<rparr>]\<rparr>"
  have 1: "link_inputs ?B (link_previous\<lparr>m_is_spirv := False\<rparr>) = Inr (False, ?B)"
    using link_inputs_failure[of "link_previous\<lparr>m_is_spirv := False\<rparr>" ?B]
    by simp
  have 2: "link_inputs link_previous ?B = Inr (False, link_previous)"
    using link_inputs_failure[of ?B link_previous]
    by (simp add: link_this_def link_previous_def)
  have 3: "link_inputs (link_this ''color'' 0 texcoord_instructions) link_previous
             = Inr (False, link_this ''color'' 0 texcoord_instructions)"
    using link_inputs_failure[of link_previous "link_this ''color'' 0 texcoord_instructions"]
    by (simp add: link_this_def link_previous_def find_output_def)
  have 4: "link_inputs ?B ?unlocated = Inr (False, ?B)"
    using link_inputs_failure[of ?unlocated ?B]
    by (simp add: link_this_def link_previous_def find_output_def matched_output_def
        has_location_def)
  show ?thesis using 1 2 3 4 by simp
qed

text \<open>
  C8, as the code has it. The claim fails in four ways, each on a module that the parser
  accepts and in which every input has its location and its decoration. A decoration that
  comes after its variable instruction is not rewritten. Of two location decorations of
  one id before the variable instruction only the last is rewritten. Two inputs with the
  same location share one entry of the map, so both decorations get the location of the
  output matched last. A variable instruction that occurs twice has its decoration
  rewritten twice, the second time by the entry of another input.
\<close>

theorem link_inputs_misses_decorations:
  "link_inputs
       (link_this ''texcoord'' 5 (texcoord_instructions @ [location_decoration 4 5]))
       link_previous
     = Inr (True, link_this ''texcoord'' 5 (texcoord_instructions @ [location_decoration 4 5])) \<and>
   link_inputs
       (link_this ''texcoord'' 0
          (location_decoration 4 0 # location_decoration 4 0 # texcoord_instructions))
       link_previous
     = Inr (True,
            link_this ''texcoord'' 0
              (location_decoration 4 0 # location_decoration 4 2 # texcoord_instructions)) \<and>
   link_inputs
       (link_this_ab 0 0
          ([location_decoration 4 0, location_decoration 6 0] @ vec2_types
           @ [input_variable 4, input_variable 6]))
       link_previous_ab
     = Inr (True,
            link_this_ab 0 0
              ([location_decoration 4 2, location_decoration 6 2] @ vec2_types
               @ [input_variable 4, input_variable 6])) \<and>
   link_inputs
       (link_this_ab 0 1
          ([location_decoration 4 0, location_decoration 6 1] @ vec2_types
           @ [input_variable 4, input_variable 4, input_variable 6]))
       link_previous_ab
     = Inr (True,
            link_this_ab 0 1
              ([location_decoration 4 2, location_decoration 6 2] @ vec2_types
               @ [input_variable 4, input_variable 4, input_variable 6]))"
  by code_simp

text \<open>
  C8, amended. When the previous module is of the same kind and of an earlier stage,
  every input of this module has an output of its name with a location in the previous
  module, and no decoration or variable instruction of this module is cut short,
  \<open>link_inputs\<close> succeeds and keeps the number of instructions. A location decoration
  that no input variable instruction of its id follows is left as it is. If the inputs
  have pairwise different locations, then for every input whose location differs from
  that of its matched output (an input without a location is one), a location decoration
  that carries the input's location, and that is the last location decoration of its id
  before the only input variable instruction of that id, is rewritten to the location of
  the matched output.
\<close>

theorem link_inputs_rewrites_preceding_decorations:
  assumes "m_is_spirv previous"
    and "stage_index (m_stage previous) < stage_index (m_stage this)"
    and "\<forall>input \<in> set (m_inputs this).
           0 \<le> find_output previous (var_name input) \<and> has_location (matched_output previous input)"
    and "\<forall>ins \<in> set (m_instructions this). remap_readable ins"
  shows "\<exists>out. link_inputs this previous = Inr (True, this\<lparr>m_instructions := out\<rparr>) \<and>
           length out = length (m_instructions this) \<and>
           (\<forall>j v. j < length (m_instructions this) \<and>
                  is_location_decoration (m_instructions this ! j) v \<and>
                  (\<forall>k. j < k \<and> k < length (m_instructions this) \<longrightarrow>
                     \<not> is_variable_of SpvStorageClassInput (m_instructions this ! k) v) \<longrightarrow>
                  out ! j = m_instructions this ! j) \<and>
           (distinct (map var_location (m_inputs this)) \<longrightarrow>
             (\<forall>input \<in> set (m_inputs this). \<forall>j k v.
                var_location (matched_output previous input) \<noteq> var_location input \<and>
                j < k \<and> k < length (m_instructions this) \<and>
                is_location_decoration (m_instructions this ! j) v \<and>
                sint (args (m_instructions this ! j) ! 2) = var_location input \<and>
                is_variable_of SpvStorageClassInput (m_instructions this ! k) v \<and>
                (\<forall>i < length (m_instructions this).
                   i \<noteq> k \<longrightarrow> \<not> is_variable_of SpvStorageClassInput (m_instructions this ! i) v) \<and>
                (\<forall>i. j < i \<and> i < k \<longrightarrow> \<not> is_location_decoration (m_instructions this ! i) v) \<longrightarrow>
                out ! j = with_location (m_instructions this ! j)
                            (var_location (matched_output previous input))))"
proof -
  let ?instrs = "m_instructions this"
  from link_loop_succeeds[OF assms(3)] obtain remap where
    lp: "link_loop previous [] (m_inputs this) = Some remap" by blast
  from remap_loop_total[OF assms(4)] obtain out where
    rl: "remap_loop SpvStorageClassInput (map_of remap) Map.empty [] ?instrs = Inr out" by blast
  have hit: "out ! j = with_location (?instrs ! j) (var_location (matched_output previous input))"
    if d: "distinct (map var_location (m_inputs this))" and i: "input \<in> set (m_inputs this)"
      and ne: "var_location (matched_output previous input) \<noteq> var_location input"
      and jk: "j < k" "k < length ?instrs"
      and dec: "is_location_decoration (?instrs ! j) v"
      and loc: "sint (args (?instrs ! j) ! 2) = var_location input"
      and var: "is_variable_of SpvStorageClassInput (?instrs ! k) v"
      and uniq: "\<forall>i < length ?instrs. i \<noteq> k \<longrightarrow> \<not> is_variable_of SpvStorageClassInput (?instrs ! i) v"
      and lastd: "\<forall>i. j < i \<and> i < k \<longrightarrow> \<not> is_location_decoration (?instrs ! i) v"
    for input j k v
  proof -
    from link_loop_maps[OF lp d i ne] loc
    have "map_of remap (sint (args (?instrs ! j) ! 2)) = Some (var_location (matched_output previous input))"
      by simp
    from remap_loop_hit_rest[OF rl decs_ok_empty jk dec var uniq lastd this]
    show ?thesis by simp
  qed
  have keep: "out ! j = ?instrs ! j"
    if j: "j < length ?instrs" and dec: "is_location_decoration (?instrs ! j) v"
      and late: "\<forall>k. j < k \<and> k < length ?instrs \<longrightarrow>
                   \<not> is_variable_of SpvStorageClassInput (?instrs ! k) v"
    for j v
  proof -
    from dec have v: "args (?instrs ! j) ! 0 = v" by (simp add: is_location_decoration_def)
    from remap_loop_keep_rest[OF rl decs_ok_empty j] late v show ?thesis by simp
  qed
  show ?thesis
  proof (cases "remap = []")
    case True
    have "link_inputs this previous = Inr (True, this\<lparr>m_instructions := ?instrs\<rparr>)"
      using assms(1,2) lp True by (simp add: link_inputs_def)
    moreover have "\<not> var_location (matched_output previous input) \<noteq> var_location input"
      if "distinct (map var_location (m_inputs this))" "input \<in> set (m_inputs this)" for input
      using link_loop_maps[OF lp that] True by auto
    ultimately show ?thesis by (intro exI[of _ ?instrs]) auto
  next
    case False
    have "link_inputs this previous = Inr (True, this\<lparr>m_instructions := out\<rparr>)"
      using assms(1,2) lp False rl by (simp add: link_inputs_def remap_locations_def)
    moreover have "length out = length ?instrs" using remap_loop_length[OF rl] by simp
    ultimately show ?thesis using hit keep by (intro exI[of _ out]) blast
  qed
qed

text \<open>
  The example of the specification: a fragment stage whose input \<open>texcoord\<close> has no
  location gets location 0 and its decoration from \<open>assign_locations\<close>, and the link with
  a vertex stage whose output \<open>texcoord\<close> is at location 2 rewrites the decoration to 2.
\<close>

lemma texcoord_assigned:
  "assign_locations fragment example_npl texcoord_defs texcoord_instructions =
     Inr (texcoord_defs[4 := example_variable ''texcoord'' (Vector ST_float 2) SpvStorageClassInput 0],
          location_decoration 4 0 # texcoord_instructions)"
  by code_simp

theorem link_inputs_rewrites_preceding_decorations_witness:
  "assign_locations fragment example_npl texcoord_defs texcoord_instructions =
     Inr (texcoord_defs[4 := example_variable ''texcoord'' (Vector ST_float 2) SpvStorageClassInput 0],
          location_decoration 4 0 # texcoord_instructions) \<and>
   (\<exists>out. link_inputs
            (link_this ''texcoord'' 0
               (location_decoration 4 0 # texcoord_instructions @ [location_decoration 4 0]))
            link_previous
          = Inr (True,
                 link_this ''texcoord'' 0
                   (location_decoration 4 0 # texcoord_instructions @ [location_decoration 4 0])
                 \<lparr>m_instructions := out\<rparr>) \<and>
          out ! 0 = location_decoration 4 2 \<and> out ! 5 = location_decoration 4 0)"
proof -
  let ?instrs = "location_decoration 4 0 # texcoord_instructions @ [location_decoration 4 0]"
  let ?B = "link_this ''texcoord'' 0 ?instrs"
  let ?input = "\<lparr>var_type = Some (Vector ST_float 2), var_name = ''texcoord'', var_location = 0\<rparr>"
  have h1: "m_is_spirv link_previous" by (simp add: link_previous_def)
  have h2: "stage_index (m_stage link_previous) < stage_index (m_stage ?B)"
    by (simp add: link_previous_def link_this_def)
  have h3: "\<forall>input \<in> set (m_inputs ?B).
              0 \<le> find_output link_previous (var_name input) \<and>
              has_location (matched_output link_previous input)"
    by (simp add: link_previous_def link_this_def find_output_def matched_output_def
        has_location_def)
  have h4: "\<forall>ins \<in> set (m_instructions ?B). remap_readable ins"
    by (simp add: link_this_def texcoord_instructions_def remap_readable_def
        location_decoration_def)
  from link_inputs_rewrites_preceding_decorations[OF h1 h2 h3 h4]
  obtain out where o: "link_inputs ?B link_previous = Inr (True, ?B\<lparr>m_instructions := out\<rparr>)"
    and q: "\<forall>j v. j < length (m_instructions ?B) \<and>
                  is_location_decoration (m_instructions ?B ! j) v \<and>
                  (\<forall>k. j < k \<and> k < length (m_instructions ?B) \<longrightarrow>
                     \<not> is_variable_of SpvStorageClassInput (m_instructions ?B ! k) v) \<longrightarrow>
                  out ! j = m_instructions ?B ! j"
    and r: "distinct (map var_location (m_inputs ?B)) \<longrightarrow>
             (\<forall>input \<in> set (m_inputs ?B). \<forall>j k v.
                var_location (matched_output link_previous input) \<noteq> var_location input \<and>
                j < k \<and> k < length (m_instructions ?B) \<and>
                is_location_decoration (m_instructions ?B ! j) v \<and>
                sint (args (m_instructions ?B ! j) ! 2) = var_location input \<and>
                is_variable_of SpvStorageClassInput (m_instructions ?B ! k) v \<and>
                (\<forall>i < length (m_instructions ?B).
                   i \<noteq> k \<longrightarrow> \<not> is_variable_of SpvStorageClassInput (m_instructions ?B ! i) v) \<and>
                (\<forall>i. j < i \<and> i < k \<longrightarrow> \<not> is_location_decoration (m_instructions ?B ! i) v) \<longrightarrow>
                out ! j = with_location (m_instructions ?B ! j)
                            (var_location (matched_output link_previous input)))"
    by blast
  have i: "m_inputs ?B = [?input]" "m_instructions ?B = ?instrs"
    by (simp_all add: link_this_def)
  have m: "var_location (matched_output link_previous ?input) = 2"
    by (simp add: link_previous_def find_output_def matched_output_def)
  have u: "\<forall>i < length ?instrs. i \<noteq> 4 \<longrightarrow> \<not> is_variable_of SpvStorageClassInput (?instrs ! i) 4"
    by (simp add: texcoord_instructions_def is_variable_of_def location_decoration_def nth_Cons
        split: nat.splits)
  have l: "\<forall>i. 0 < i \<and> i < 4 \<longrightarrow> \<not> is_location_decoration (?instrs ! i) 4"
    by (simp add: texcoord_instructions_def is_location_decoration_def nth_Cons split: nat.splits)
  have dist: "distinct (map var_location [?input])" by simp
  have inp: "?input \<in> set [?input]" by simp
  have prem:
    "var_location (matched_output link_previous ?input) \<noteq> var_location ?input \<and>
     (0 :: nat) < 4 \<and> 4 < length ?instrs \<and>
     is_location_decoration (?instrs ! 0) 4 \<and>
     sint (args (?instrs ! 0) ! 2) = var_location ?input \<and>
     is_variable_of SpvStorageClassInput (?instrs ! 4) 4 \<and>
     (\<forall>i < length ?instrs. i \<noteq> 4 \<longrightarrow> \<not> is_variable_of SpvStorageClassInput (?instrs ! i) 4) \<and>
     (\<forall>i. 0 < i \<and> i < 4 \<longrightarrow> \<not> is_location_decoration (?instrs ! i) 4)"
    by (intro conjI u l)
       (simp_all add: m texcoord_instructions_def is_location_decoration_def is_variable_of_def
          location_decoration_def)
  from r[unfolded i, rule_format, OF dist inp prem]
  have "out ! 0 = with_location (?instrs ! 0) 2"
    by (simp add: m)
  then have 0: "out ! 0 = location_decoration 4 2"
    by (simp add: with_location_def location_decoration_def)
  have n: "\<forall>k. 5 < k \<and> k < length ?instrs \<longrightarrow>
             \<not> is_variable_of SpvStorageClassInput (?instrs ! k) 4"
    by (auto simp: texcoord_instructions_def)
  have late:
    "(5 :: nat) < length ?instrs \<and> is_location_decoration (?instrs ! 5) 4 \<and>
     (\<forall>k. 5 < k \<and> k < length ?instrs \<longrightarrow>
        \<not> is_variable_of SpvStorageClassInput (?instrs ! k) 4)"
    by (intro conjI n)
       (simp_all add: texcoord_instructions_def is_location_decoration_def location_decoration_def)
  from q[unfolded i, rule_format, OF late]
  have 5: "out ! 5 = location_decoration 4 0"
    by (simp add: texcoord_instructions_def)
  from o 0 5 texcoord_assigned show ?thesis by blast
qed

section \<open>Properties of the location bitmaps\<close>

lemma get_bit_set_bit: "get_bit (set_bit b n) m \<longleftrightarrow> m = n \<or> get_bit b m"
  by (auto simp: get_bit_def set_bit_def nth_list_update nth_append)

lemma get_bit_foldl_set_bit:
  "get_bit (foldl set_bit b ns) m \<longleftrightarrow> m \<in> set ns \<or> get_bit b m"
  by (induction ns arbitrary: b) (auto simp: get_bit_set_bit)

lemma get_bit_set_range:
  "get_bit (set_range b low n) m \<longleftrightarrow> (low \<le> m \<and> m < low + n) \<or> get_bit b m"
  by (auto simp: set_range_def get_bit_foldl_set_bit)

lemma has_any_of_iff:
  "has_any_of b low n \<longleftrightarrow> (\<exists>m. low \<le> m \<and> m < low + n \<and> get_bit b m)"
  by (auto simp: has_any_of_def list_ex_iff)

lemma get_lowest_off_bit_off: "\<not> get_bit b (get_lowest_off_bit b)"
proof -
  let ?k = "length (takeWhile (\<lambda>x. x) b)"
  show ?thesis
  proof (cases "?k < length b")
    case True
    then have "\<not> b ! ?k" by (rule nth_length_takeWhile)
    then show ?thesis by (simp add: get_bit_def get_lowest_off_bit_def)
  next
    case False
    then show ?thesis by (simp add: get_bit_def get_lowest_off_bit_def)
  qed
qed

lemma get_lowest_off_bit_below: "m < get_lowest_off_bit b \<Longrightarrow> get_bit b m"
proof -
  assume m: "m < get_lowest_off_bit b"
  then have "m < length (takeWhile (\<lambda>x. x) b)" by (simp add: get_lowest_off_bit_def)
  then have "takeWhile (\<lambda>x. x) b ! m \<in> set (takeWhile (\<lambda>x. x) b)" by simp
  then have "takeWhile (\<lambda>x. x) b ! m" by (rule set_takeWhileD[THEN conjunct2])
  moreover have "takeWhile (\<lambda>x. x) b ! m = b ! m"
    using m by (simp add: get_lowest_off_bit_def takeWhile_nth)
  moreover have "m < length b"
    using m length_takeWhile_le[of "\<lambda>x. x" b] by (simp add: get_lowest_off_bit_def)
  ultimately show ?thesis by (simp add: get_bit_def)
qed

lemma find_upt_least:
  assumes "find P [a..<c] = Some n"
  shows "a \<le> n \<and> n < c \<and> P n \<and> (\<forall>m. a \<le> m \<and> m < n \<longrightarrow> \<not> P m)"
proof -
  from assms obtain i where i: "i < length [a..<c]" "P ([a..<c] ! i)" "n = [a..<c] ! i"
    "\<forall>j<i. \<not> P ([a..<c] ! j)"
    unfolding find_Some_iff by blast
  then have n: "n = a + i" "i < c - a" by auto
  have "\<not> P m" if "a \<le> m" "m < n" for m
  proof -
    from that n have "m - a < i" by simp
    with i(4) have "\<not> P ([a..<c] ! (m - a))" by blast
    moreover have "[a..<c] ! (m - a) = m" using that n by simp
    ultimately show ?thesis by simp
  qed
  then show ?thesis using i n by auto
qed

lemma find_upt_None:
  "find P [a..<c] = None \<Longrightarrow> a \<le> m \<Longrightarrow> m < c \<Longrightarrow> \<not> P m"
  by (auto simp: find_None_iff)

lemma next_bit_of_on:
  assumes "get_bit b low"
  shows "low < get_next_higher_different_bit b low \<and>
         \<not> get_bit b (get_next_higher_different_bit b low) \<and>
         (\<forall>m. low < m \<and> m < get_next_higher_different_bit b low \<longrightarrow> get_bit b m)"
proof -
  let ?c = "Suc (max (length b) (Suc low))"
  let ?P = "\<lambda>n. get_bit b n \<noteq> get_bit b low"
  have top: "?P (max (length b) (Suc low))" using assms by (simp add: get_bit_def)
  show ?thesis
  proof (cases "find ?P [Suc low..<?c]")
    case None
    from find_upt_None[OF None, of "max (length b) (Suc low)"] top show ?thesis by simp
  next
    case (Some n)
    from find_upt_least[OF Some] assms Some show ?thesis
      by (auto simp: get_next_higher_different_bit_def)
  qed
qed

lemma next_bit_of_off:
  assumes "\<not> get_bit b low" "low < m" "get_bit b m"
  shows "low < get_next_higher_different_bit b low \<and>
         get_bit b (get_next_higher_different_bit b low) \<and>
         (\<forall>k. low < k \<and> k < get_next_higher_different_bit b low \<longrightarrow> \<not> get_bit b k)"
proof -
  let ?c = "Suc (max (length b) (Suc low))"
  let ?P = "\<lambda>n. get_bit b n \<noteq> get_bit b low"
  from assms(3) have m: "m < length b" by (simp add: get_bit_def)
  show ?thesis
  proof (cases "find ?P [Suc low..<?c]")
    case None
    from find_upt_None[OF None, of m] assms m show ?thesis by simp
  next
    case (Some n)
    from find_upt_least[OF Some] assms Some show ?thesis
      by (auto simp: get_next_higher_different_bit_def)
  qed
qed

lemma uniform_location_free:
  "uniform_location ul n l0 = Inr l \<Longrightarrow>
     (1 < n \<longrightarrow> \<not> has_any_of ul l (nat n)) \<and> (\<not> 1 < n \<longrightarrow> l = l0)"
proof (induction ul n l0 rule: uniform_location.induct)
  case (1 ul n l0)
  show ?case
  proof (cases "1 < n \<and> has_any_of ul l0 (nat n)")
    case True
    with "1.prems" have a: "l0 < get_next_higher_different_bit ul l0"
      and r: "uniform_location ul n
                (get_next_higher_different_bit ul (get_next_higher_different_bit ul l0)) = Inr l"
      unfolding uniform_location.simps[of ul n l0]
      by (auto simp: Let_def split: if_splits)
    from "1.IH"[OF True refl _ r] a True show ?thesis by simp
  next
    case False
    with "1.prems" show ?thesis unfolding uniform_location.simps[of ul n l0] by auto
  qed
qed

lemma uniform_location_total:
  "\<not> get_bit ul l0 \<Longrightarrow> \<exists>l. uniform_location ul n l0 = Inr l"
proof (induction ul n l0 rule: uniform_location.induct)
  case (1 ul n l0)
  show ?case
  proof (cases "1 < n \<and> has_any_of ul l0 (nat n)")
    case True
    then obtain m where m: "l0 \<le> m" "get_bit ul m" by (auto simp: has_any_of_iff)
    with "1.prems" have "l0 < m" by (cases "l0 = m") auto
    from next_bit_of_off[OF "1.prems" this m(2)]
    have a: "l0 < get_next_higher_different_bit ul l0"
      and on: "get_bit ul (get_next_higher_different_bit ul l0)" by auto
    from next_bit_of_on[OF on]
    have off: "\<not> get_bit ul (get_next_higher_different_bit ul (get_next_higher_different_bit ul l0))"
      by simp
    from "1.IH"[OF True refl _ off] a
    obtain l where "uniform_location ul n
                (get_next_higher_different_bit ul (get_next_higher_different_bit ul l0)) = Inr l"
      by auto
    then show ?thesis using True a unfolding uniform_location.simps[of ul n l0] by (simp add: Let_def)
  next
    case False
    then show ?thesis unfolding uniform_location.simps[of ul n l0] by auto
  qed
qed

lemma uniform_location_range_free:
  assumes "uniform_location ul n (get_lowest_off_bit ul) = Inr l" "l \<le> m" "m < l + nat n"
  shows "\<not> get_bit ul m"
proof (cases "1 < n")
  case True
  with uniform_location_free[OF assms(1)] assms(2,3) show ?thesis
    by (auto simp: has_any_of_iff)
next
  case False
  with uniform_location_free[OF assms(1)] have "l = get_lowest_off_bit ul" by simp
  moreover from False assms(2,3) have "m = l" by simp
  ultimately show ?thesis using get_lowest_off_bit_off by simp
qed

section \<open>Properties of assign_locations\<close>

lemma assign_location_skip:
  "\<not> needs_location d \<Longrightarrow> assign_location stg npl ls d = Inr (None, ls)"
  by (auto simp: assign_location_def needs_location_def)

lemma assign_location_None:
  "assign_location stg npl ls d = Inr (None, ls') \<Longrightarrow> \<not> needs_location d \<and> ls' = ls"
  by (auto simp: assign_location_def needs_location_def Let_def split: if_splits option.splits sum.splits)

lemma assign_location_input:
  "needs_location d \<Longrightarrow> def_storage_class d = SpvStorageClassInput \<Longrightarrow>
     assign_location stg npl ls d =
       Inr (Some (input_location stg (input_locations ls) (def_name d)),
            ls\<lparr>input_locations :=
                 set_bit (input_locations ls) (input_location stg (input_locations ls) (def_name d))\<rparr>)"
  by (simp add: assign_location_def needs_location_def Let_def)

lemma assign_location_output:
  "needs_location d \<Longrightarrow> def_storage_class d = SpvStorageClassOutput \<Longrightarrow>
     assign_location stg npl ls d =
       Inr (Some (get_lowest_off_bit (output_locations ls)),
            ls\<lparr>output_locations :=
                 set_bit (output_locations ls) (get_lowest_off_bit (output_locations ls))\<rparr>)"
  by (simp add: assign_location_def needs_location_def Let_def)

lemma assign_location_uniform:
  assumes "needs_location d" "def_storage_class d = SpvStorageClassUniformConstant"
    "def_type d = Some t"
  shows "\<exists>l. uniform_location (uniform_locations ls) (npl t)
                (get_lowest_off_bit (uniform_locations ls)) = Inr l \<and>
             assign_location stg npl ls d =
               Inr (Some l, ls\<lparr>uniform_locations :=
                                  set_range (uniform_locations ls) l (nat (npl t))\<rparr>)"
proof -
  from uniform_location_total[OF get_lowest_off_bit_off]
  obtain l where "uniform_location (uniform_locations ls) (npl t)
                (get_lowest_off_bit (uniform_locations ls)) = Inr l" by blast
  then show ?thesis using assms
    by (simp add: assign_location_def needs_location_def Let_def)
qed

lemma assign_location_Some_uniform:
  assumes "assign_location stg npl ls d = Inr (Some l, ls')"
    "def_storage_class d = SpvStorageClassUniformConstant"
  shows "\<exists>t. def_type d = Some t \<and>
             uniform_location (uniform_locations ls) (npl t)
                (get_lowest_off_bit (uniform_locations ls)) = Inr l \<and>
             uniform_locations ls' = set_range (uniform_locations ls) l (nat (npl t))"
  using assms
  by (auto simp: assign_location_def Let_def split: if_splits option.splits sum.splits)

lemma assign_location_Some_other:
  assumes "assign_location stg npl ls d = Inr (Some l, ls')"
    "def_storage_class d \<noteq> SpvStorageClassUniformConstant"
  shows "uniform_locations ls' = uniform_locations ls"
  using assms
  by (auto simp: assign_location_def Let_def split: if_splits option.splits sum.splits)

lemma assign_location_Some_needs:
  "assign_location stg npl ls d = Inr (Some l, ls') \<Longrightarrow> needs_location d"
  by (auto simp: assign_location_def needs_location_def Let_def split: if_splits option.splits sum.splits)

lemma assign_location_total:
  assumes "needs_location d \<and> def_storage_class d = SpvStorageClassUniformConstant \<longrightarrow> def_type d \<noteq> None"
  shows "\<exists>r ls'. assign_location stg npl ls d = Inr (r, ls') \<and> (r = None \<longleftrightarrow> \<not> needs_location d)"
proof (cases "needs_location d")
  case False
  then show ?thesis using assign_location_skip by blast
next
  case True
  then consider "def_storage_class d = SpvStorageClassInput"
    | "def_storage_class d = SpvStorageClassOutput"
    | "def_storage_class d = SpvStorageClassUniformConstant"
    by (auto simp: needs_location_def)
  then show ?thesis
  proof cases
    case 1
    then show ?thesis using True assign_location_input by blast
  next
    case 2
    then show ?thesis using True assign_location_output by blast
  next
    case 3
    with True assms obtain t where "def_type d = Some t" by auto
    from assign_location_uniform[OF True 3 this] True show ?thesis by blast
  qed
qed

lemma assign_loop_result:
  assumes "\<forall>d \<in> set ds. needs_location d \<and> def_storage_class d = SpvStorageClassUniformConstant
             \<longrightarrow> def_type d \<noteq> None"
  shows "\<exists>ds' decs. assign_loop stg npl ls i ds = Inr (ds', decs) \<and> length ds' = length ds \<and>
           (\<forall>k < length ds. needs_location (ds ! k) \<longrightarrow>
              (\<exists>l. ds' ! k = (ds ! k)\<lparr>def_location := int l\<rparr> \<and>
                   location_decoration (i + k) l \<in> set decs))"
  using assms
proof (induction ds arbitrary: ls i)
  case Nil
  then show ?case by simp
next
  case (Cons d ds)
  from Cons.prems have "needs_location d \<and> def_storage_class d = SpvStorageClassUniformConstant
      \<longrightarrow> def_type d \<noteq> None" by simp
  from assign_location_total[OF this] obtain r ls' where
    al: "assign_location stg npl ls d = Inr (r, ls')" and r: "r = None \<longleftrightarrow> \<not> needs_location d"
    by blast
  from Cons.prems have "\<forall>d \<in> set ds. needs_location d \<and> def_storage_class d = SpvStorageClassUniformConstant
             \<longrightarrow> def_type d \<noteq> None" by simp
  from Cons.IH[OF this, of ls' "Suc i"] obtain ds' decs where
    lp: "assign_loop stg npl ls' (Suc i) ds = Inr (ds', decs)" and len: "length ds' = length ds"
    and ih: "\<forall>k < length ds. needs_location (ds ! k) \<longrightarrow>
              (\<exists>l. ds' ! k = (ds ! k)\<lparr>def_location := int l\<rparr> \<and>
                   location_decoration (Suc i + k) l \<in> set decs)"
    by blast
  show ?case
  proof (cases r)
    case None
    then have res: "assign_loop stg npl ls i (d # ds) = Inr (d # ds', decs)"
      using al lp by simp
    have "\<exists>l. (d # ds') ! k = ((d # ds) ! k)\<lparr>def_location := int l\<rparr> \<and>
               location_decoration (i + k) l \<in> set decs"
      if "k < length (d # ds)" "needs_location ((d # ds) ! k)" for k
    proof (cases k)
      case 0
      with that None r show ?thesis by simp
    next
      case (Suc k')
      with that ih show ?thesis by auto
    qed
    then show ?thesis using res len by auto
  next
    case (Some l)
    then have res: "assign_loop stg npl ls i (d # ds) =
        Inr (d\<lparr>def_location := int l\<rparr> # ds', location_decoration i l # decs)"
      using al lp by (simp add: location_decoration_def)
    have "\<exists>l'. (d\<lparr>def_location := int l\<rparr> # ds') ! k = ((d # ds) ! k)\<lparr>def_location := int l'\<rparr> \<and>
               location_decoration (i + k) l' \<in> set (location_decoration i l # decs)"
      if "k < length (d # ds)" "needs_location ((d # ds) ! k)" for k
    proof (cases k)
      case 0
      then show ?thesis by auto
    next
      case (Suc k')
      with that ih show ?thesis by auto
    qed
    then show ?thesis using res len by auto
  qed
qed

lemma assign_loop_keeps:
  "assign_loop stg npl ls i ds = Inr (ds', decs) \<Longrightarrow>
     length ds' = length ds \<and> (\<forall>k < length ds. \<not> needs_location (ds ! k) \<longrightarrow> ds' ! k = ds ! k)"
proof (induction ds arbitrary: ls i ds' decs)
  case Nil
  then show ?case by simp
next
  case (Cons d ds)
  from Cons.prems obtain r ls' ds'' decs' where
    al: "assign_location stg npl ls d = Inr (r, ls')"
    and lp: "assign_loop stg npl ls' (Suc i) ds = Inr (ds'', decs')"
    and hd: "ds' = (case r of None \<Rightarrow> d | Some l \<Rightarrow> d\<lparr>def_location := int l\<rparr>) # ds''"
    by (auto split: sum.splits option.splits)
  from Cons.IH[OF lp] have ih: "length ds'' = length ds"
    "\<forall>k < length ds. \<not> needs_location (ds ! k) \<longrightarrow> ds'' ! k = ds ! k" by auto
  have "ds' ! k = (d # ds) ! k" if "k < length (d # ds)" "\<not> needs_location ((d # ds) ! k)" for k
  proof (cases k)
    case 0
    with that al have "r = None" using assign_location_Some_needs by (cases r) auto
    then show ?thesis using hd 0 by simp
  next
    case (Suc k')
    then show ?thesis using that ih hd by simp
  qed
  then show ?case using ih hd by simp
qed

lemma has_unassigned_foldl:
  "has_unassigned_locations (foldl (record_location npl) ls ds) \<longleftrightarrow>
     has_unassigned_locations ls \<or> (\<exists>d \<in> set ds. needs_location d)"
proof (induction ds arbitrary: ls)
  case Nil
  then show ?case by simp
next
  case (Cons d ds)
  have "has_unassigned_locations (record_location npl ls d) \<longleftrightarrow>
          has_unassigned_locations ls \<or> needs_location d"
    by (auto simp: record_location_def needs_location_def)
  then show ?case using Cons.IH[of "record_location npl ls d"] by auto
qed

lemma sint_of_nat_location:
  "l < 2 ^ 31 \<Longrightarrow> sint (of_nat l :: u32) = int l"
proof -
  assume l: "l < 2 ^ 31"
  then have i: "int l < 2 ^ 31" by (metis of_nat_less_iff of_nat_numeral of_nat_power)
  have "sint (word_of_int (int l) :: u32) = signed_take_bit (LENGTH(32) - 1) (int l)"
    by (rule sint_sbintrunc')
  also have "\<dots> = int l"
    using i by (intro signed_take_bit_int_eq_self) simp_all
  finally show ?thesis by simp
qed

lemma assign_example_result:
  "assign_locations vertex example_npl assign_example_defs assign_example_instrs =
     Inr ([Definition_default,
           example_variable ''p3d_Vertex'' (Vector ST_float 4) SpvStorageClassInput 0,
           example_variable ''color'' (Vector ST_float 4) SpvStorageClassInput 1,
           example_variable ''mvp'' (Matrix ST_float 4 4) SpvStorageClassUniformConstant 1,
           example_variable ''tex'' (SampledImage TT_2d_texture) SpvStorageClassUniformConstant 0,
           example_variable ''proj'' (Matrix ST_float 4 4) SpvStorageClassUniformConstant 5],
          [\<lparr>opcode = SpvOpCapability, args = [1]\<rparr>,
           location_decoration 1 0, location_decoration 2 1,
           location_decoration 4 0, location_decoration 5 5,
           \<lparr>opcode = SpvOpTypeFloat, args = [6, 32]\<rparr>])"
  by code_simp

text \<open>
  The round trip of \<open>assign_locations\<close> on a table in which every unassigned
  uniform-constant variable has a type: \<open>assign_locations\<close> returns, every definition that
  is a variable, not a built-in, of storage class input, output or uniform-constant, with
  a negative location before, has a non-negative location after, and the stream holds a
  location decoration of its id whose location word is that location; read back as \<open>int\<close>,
  the word is the location (for a location that fits an \<open>int\<close>).
\<close>

lemma assign_locations_decorates_typed:
  assumes "\<forall>d \<in> set defs. needs_location d \<and> def_storage_class d = SpvStorageClassUniformConstant
             \<longrightarrow> def_type d \<noteq> None"
  shows "\<exists>defs' instrs'.
           assign_locations stg npl defs instrs = Inr (defs', instrs') \<and>
           length defs' = length defs \<and>
           (\<forall>i < length defs. needs_location (defs ! i) \<longrightarrow>
              0 \<le> def_location (defs' ! i) \<and>
              (\<exists>ins \<in> set instrs'.
                 opcode ins = SpvOpDecorate \<and> length (args ins) = 3 \<and>
                 args ins ! 0 = of_nat i \<and> args ins ! 1 = SpvDecorationLocation \<and>
                 args ins ! 2 = word_of_int (def_location (defs' ! i)) \<and>
                 (def_location (defs' ! i) < 2 ^ 31 \<longrightarrow>
                    sint (args ins ! 2) = def_location (defs' ! i))))"
proof -
  let ?ls = "foldl (record_location npl)
                 \<lparr>has_unassigned_locations = False, input_locations = [],
                  output_locations = [], uniform_locations = []\<rparr> defs"
  show ?thesis
  proof (cases "has_unassigned_locations ?ls")
    case False
    then have "\<forall>d \<in> set defs. \<not> needs_location d" by (simp add: has_unassigned_foldl)
    then have "\<forall>i < length defs. \<not> needs_location (defs ! i)" by simp
    moreover have "assign_locations stg npl defs instrs = Inr (defs, instrs)"
      using False by (simp add: assign_locations_def Let_def)
    ultimately show ?thesis by auto
  next
    case True
    from assign_loop_result[OF assms, of stg npl ?ls 0] obtain defs' decs where
      lp: "assign_loop stg npl ?ls 0 defs = Inr (defs', decs)" and len: "length defs' = length defs"
      and r: "\<forall>k < length defs. needs_location (defs ! k) \<longrightarrow>
              (\<exists>l. defs' ! k = (defs ! k)\<lparr>def_location := int l\<rparr> \<and>
                   location_decoration (0 + k) l \<in> set decs)"
      by blast
    let ?instrs' = "takeWhile (\<lambda>ins. is_annotation_opcode (opcode ins)) instrs @ decs
                    @ dropWhile (\<lambda>ins. is_annotation_opcode (opcode ins)) instrs"
    have res: "assign_locations stg npl defs instrs = Inr (defs', ?instrs')"
      using True lp by (simp add: assign_locations_def Let_def)
    have "0 \<le> def_location (defs' ! i) \<and>
              (\<exists>ins \<in> set ?instrs'.
                 opcode ins = SpvOpDecorate \<and> length (args ins) = 3 \<and>
                 args ins ! 0 = of_nat i \<and> args ins ! 1 = SpvDecorationLocation \<and>
                 args ins ! 2 = word_of_int (def_location (defs' ! i)) \<and>
                 (def_location (defs' ! i) < 2 ^ 31 \<longrightarrow>
                    sint (args ins ! 2) = def_location (defs' ! i)))"
      if "i < length defs" "needs_location (defs ! i)" for i
    proof -
      from r that obtain l where l: "defs' ! i = (defs ! i)\<lparr>def_location := int l\<rparr>"
        and m: "location_decoration i l \<in> set decs" by auto
      have "def_location (defs' ! i) < 2 ^ 31 \<longrightarrow> sint (of_nat l :: u32) = def_location (defs' ! i)"
        using l sint_of_nat_location[of l] by simp
      then show ?thesis using l m
        by (intro conjI bexI[of _ "location_decoration i l"])
           (simp_all add: location_decoration_def)
    qed
    then show ?thesis using res len by blast
  qed
qed

text \<open>
  C3. The round trip fails on an unassigned uniform-constant variable without a type. The
  module declares a float type, a runtime array of it (a type instruction the parser
  does not interpret, so its definition keeps the null type), a uniform-constant pointer
  to the array and a variable of that pointer type. The parser accepts it; the variable
  has no location, and the second loop of \<open>assign_locations\<close> calls
  \<open>get_num_parameter_locations\<close> through its null type, where the first loop tests the
  type before the same call. No location is assigned and no decoration inserted.
\<close>

lemma null_type_parse: "parse null_type_example [] = Inr (True, null_type_defs)"
  by code_simp

theorem assign_locations_dereferences_null_type:
  "parse null_type_example [] = Inr (True, null_type_defs) \<and>
   needs_location (null_type_defs ! 4) \<and>
   def_type (null_type_defs ! 4) = None \<and>
   assign_locations stg npl null_type_defs instrs = Inl NullPointer"
proof -
  have "needs_location (null_type_defs ! 4)" "def_type (null_type_defs ! 4) = None"
    by (simp_all add: null_type_defs_def needs_location_def Definition_default_def)
  moreover have "assign_locations stg npl null_type_defs instrs = Inl NullPointer"
    by (simp add: assign_locations_def null_type_defs_def Definition_default_def
        record_location_def assign_location_def Let_def)
  ultimately show ?thesis using null_type_parse by simp
qed

lemma record_location_uniform_mono:
  "get_bit (uniform_locations ls) m \<Longrightarrow> get_bit (uniform_locations (record_location npl ls d)) m"
  by (auto simp: record_location_def get_bit_set_range)

lemma record_location_old_uniform:
  assumes "old_uniform d" "x \<in> uniform_range npl d"
  shows "get_bit (uniform_locations (record_location npl ls d)) (nat x)"
proof -
  let ?n = "case def_type d of Some t \<Rightarrow> npl t | None \<Rightarrow> 1"
  from assms have x: "def_location d \<le> x" "x < def_location d + ?n" "0 \<le> def_location d"
    by (auto simp: uniform_range_def old_uniform_def)
  then have "nat (def_location d) \<le> nat x \<and> nat x < nat (def_location d) + nat ?n"
    by auto
  moreover from assms(1) have
    "uniform_locations (record_location npl ls d) =
       set_range (uniform_locations ls) (nat (def_location d)) (nat ?n)"
    by (simp add: record_location_def old_uniform_def)
  ultimately show ?thesis by (simp add: get_bit_set_range)
qed

lemma foldl_record_location_mono:
  "get_bit (uniform_locations ls) m \<Longrightarrow>
     get_bit (uniform_locations (foldl (record_location npl) ls ds)) m"
  by (induction ds arbitrary: ls) (auto intro: record_location_uniform_mono)

lemma foldl_record_location_old_uniform:
  "d \<in> set ds \<Longrightarrow> old_uniform d \<Longrightarrow> x \<in> uniform_range npl d \<Longrightarrow>
     get_bit (uniform_locations (foldl (record_location npl) ls ds)) (nat x)"
proof (induction ds arbitrary: ls)
  case Nil
  then show ?case by simp
next
  case (Cons a ds)
  show ?case
  proof (cases "d = a")
    case True
    from record_location_old_uniform[OF Cons.prems(2,3), of ls] True
    show ?thesis by (simp add: foldl_record_location_mono)
  next
    case False
    with Cons show ?thesis by simp
  qed
qed

lemma assign_loop_uniform_free:
  assumes "assign_loop stg npl ls i ds = Inr (ds', decs)"
  shows "(\<forall>k < length ds. new_uniform (ds ! k) \<longrightarrow>
            (\<forall>x \<in> uniform_range npl (ds' ! k). \<not> get_bit (uniform_locations ls) (nat x))) \<and>
         (\<forall>k k'. k < k' \<and> k' < length ds \<and> new_uniform (ds ! k) \<and> new_uniform (ds ! k') \<longrightarrow>
            uniform_range npl (ds' ! k) \<inter> uniform_range npl (ds' ! k') = {})"
  using assms
proof (induction ds arbitrary: ls i ds' decs)
  case Nil
  then show ?case by simp
next
  case (Cons d ds)
  from Cons.prems obtain r ls' ds'' decs' where
    al: "assign_location stg npl ls d = Inr (r, ls')"
    and lp: "assign_loop stg npl ls' (Suc i) ds = Inr (ds'', decs')"
    and hd: "ds' = (case r of None \<Rightarrow> d | Some l \<Rightarrow> d\<lparr>def_location := int l\<rparr>) # ds''"
    by (auto split: sum.splits option.splits)
  from Cons.IH[OF lp]
  have ih1: "\<forall>k < length ds. new_uniform (ds ! k) \<longrightarrow>
            (\<forall>x \<in> uniform_range npl (ds'' ! k). \<not> get_bit (uniform_locations ls') (nat x))"
    and ih2: "\<forall>k k'. k < k' \<and> k' < length ds \<and> new_uniform (ds ! k) \<and> new_uniform (ds ! k') \<longrightarrow>
            uniform_range npl (ds'' ! k) \<inter> uniform_range npl (ds'' ! k') = {}"
    by auto
  show ?case
  proof (cases "new_uniform d")
    case False
    have same: "uniform_locations ls' = uniform_locations ls"
    proof (cases r)
      case None
      with al show ?thesis using assign_location_None by blast
    next
      case (Some l)
      with al have "needs_location d" using assign_location_Some_needs by blast
      with False have "def_storage_class d \<noteq> SpvStorageClassUniformConstant"
        by (simp add: new_uniform_def)
      with al Some show ?thesis using assign_location_Some_other by blast
    qed
    have 1: "\<forall>x \<in> uniform_range npl (ds' ! k). \<not> get_bit (uniform_locations ls) (nat x)"
      if "k < length (d # ds)" "new_uniform ((d # ds) ! k)" for k
      using that False ih1 same hd by (cases k) auto
    have 2: "uniform_range npl (ds' ! k) \<inter> uniform_range npl (ds' ! k') = {}"
      if "k < k'" "k' < length (d # ds)" "new_uniform ((d # ds) ! k)" "new_uniform ((d # ds) ! k')"
      for k k'
    proof (cases k)
      case 0
      with that False show ?thesis by simp
    next
      case (Suc j)
      with that obtain j' where "k' = Suc j'" by (cases k') auto
      with Suc that ih2 hd show ?thesis by auto
    qed
    from 1 2 show ?thesis by blast
  next
    case True
    then have uc: "def_storage_class d = SpvStorageClassUniformConstant" and nl: "needs_location d"
      by (simp_all add: new_uniform_def)
    from al nl obtain l where r: "r = Some l" using assign_location_None by (cases r) auto
    from assign_location_Some_uniform[OF al[unfolded r] uc] obtain t where
      t: "def_type d = Some t"
      and ul: "uniform_location (uniform_locations ls) (npl t)
                (get_lowest_off_bit (uniform_locations ls)) = Inr l"
      and ls': "uniform_locations ls' = set_range (uniform_locations ls) l (nat (npl t))"
      by blast
    have rng: "uniform_range npl (d\<lparr>def_location := int l\<rparr>) = {int l ..< int l + npl t}"
      using t by (simp add: uniform_range_def)
    have in_rng: "l \<le> nat x \<and> nat x < l + nat (npl t)" if "x \<in> {int l ..< int l + npl t}" for x
      using that by auto
    have free: "\<not> get_bit (uniform_locations ls) (nat x)" if "x \<in> {int l ..< int l + npl t}" for x
      using uniform_location_range_free[OF ul] in_rng[OF that] by blast
    have taken: "get_bit (uniform_locations ls') (nat x)" if "x \<in> {int l ..< int l + npl t}" for x
      using in_rng[OF that] by (simp add: ls' get_bit_set_range)
    have mono: "get_bit (uniform_locations ls) m \<Longrightarrow> get_bit (uniform_locations ls') m" for m
      by (simp add: ls' get_bit_set_range)
    have hd0: "ds' ! 0 = d\<lparr>def_location := int l\<rparr>" using hd r by simp
    have 1: "\<forall>x \<in> uniform_range npl (ds' ! k). \<not> get_bit (uniform_locations ls) (nat x)"
      if "k < length (d # ds)" "new_uniform ((d # ds) ! k)" for k
    proof (cases k)
      case 0
      then show ?thesis using hd0 rng free by simp
    next
      case (Suc j)
      with that ih1 have "\<forall>x \<in> uniform_range npl (ds'' ! j). \<not> get_bit (uniform_locations ls') (nat x)"
        by simp
      then show ?thesis using mono hd Suc by auto
    qed
    have 2: "uniform_range npl (ds' ! k) \<inter> uniform_range npl (ds' ! k') = {}"
      if "k < k'" "k' < length (d # ds)" "new_uniform ((d # ds) ! k)" "new_uniform ((d # ds) ! k')"
      for k k'
    proof -
      from that obtain j' where k': "k' = Suc j'" by (cases k') auto
      show ?thesis
      proof (cases k)
        case 0
        from that k' ih1
        have "\<forall>x \<in> uniform_range npl (ds'' ! j'). \<not> get_bit (uniform_locations ls') (nat x)"
          by simp
        then have "\<forall>x \<in> uniform_range npl (ds' ! k'). x \<notin> {int l ..< int l + npl t}"
          using taken hd k' by auto
        then show ?thesis using 0 hd0 rng by auto
      next
        case (Suc j)
        with that k' ih2 hd show ?thesis by auto
      qed
    qed
    from 1 2 show ?thesis by blast
  qed
qed

text \<open>
  C4. After \<open>assign_locations\<close>, the range of locations of a uniform-constant variable that
  it has given a location is disjoint from the range of every other uniform-constant
  variable it has given a location, and from the range of every uniform-constant
  variable that had its location before (which keeps it).
\<close>

theorem uniform_ranges_disjoint:
  assumes "assign_locations stg npl defs instrs = Inr (defs', instrs')"
    and "i < length defs" and "new_uniform (defs ! i)"
  shows "(\<forall>j < length defs. j \<noteq> i \<and> new_uniform (defs ! j) \<longrightarrow>
            uniform_range npl (defs' ! i) \<inter> uniform_range npl (defs' ! j) = {}) \<and>
         (\<forall>k < length defs. old_uniform (defs ! k) \<longrightarrow>
            defs' ! k = defs ! k \<and>
            uniform_range npl (defs' ! i) \<inter> uniform_range npl (defs ! k) = {})"
proof -
  let ?ls = "foldl (record_location npl)
                 \<lparr>has_unassigned_locations = False, input_locations = [],
                  output_locations = [], uniform_locations = []\<rparr> defs"
  from assms(2,3) have "\<exists>d \<in> set defs. needs_location d"
    by (auto simp: new_uniform_def)
  then have "has_unassigned_locations ?ls" by (simp add: has_unassigned_foldl)
  with assms(1) obtain decs where lp: "assign_loop stg npl ?ls 0 defs = Inr (defs', decs)"
    by (auto simp: assign_locations_def Let_def split: sum.splits)
  from assign_loop_uniform_free[OF lp]
  have free: "\<forall>x \<in> uniform_range npl (defs' ! i). \<not> get_bit (uniform_locations ?ls) (nat x)"
    and pair: "\<forall>k k'. k < k' \<and> k' < length defs \<and> new_uniform (defs ! k) \<and> new_uniform (defs ! k') \<longrightarrow>
            uniform_range npl (defs' ! k) \<inter> uniform_range npl (defs' ! k') = {}"
    using assms(2,3) by auto
  have a: "uniform_range npl (defs' ! i) \<inter> uniform_range npl (defs' ! j) = {}"
    if "j < length defs" "j \<noteq> i" "new_uniform (defs ! j)" for j
  proof (cases "i < j")
    case True
    with pair that assms(3) show ?thesis by blast
  next
    case False
    with that have "j < i" by simp
    with pair assms(2,3) that have
      "uniform_range npl (defs' ! j) \<inter> uniform_range npl (defs' ! i) = {}" by blast
    then show ?thesis by blast
  qed
  have b: "defs' ! k = defs ! k \<and> uniform_range npl (defs' ! i) \<inter> uniform_range npl (defs ! k) = {}"
    if "k < length defs" "old_uniform (defs ! k)" for k
  proof -
    from that(2) have "\<not> needs_location (defs ! k)"
      by (auto simp: old_uniform_def needs_location_def)
    with assign_loop_keeps[OF lp] that(1) have "defs' ! k = defs ! k" by simp
    moreover have "get_bit (uniform_locations ?ls) (nat x)" if "x \<in> uniform_range npl (defs ! k)" for x
      using foldl_record_location_old_uniform[OF _ \<open>old_uniform (defs ! k)\<close> that] \<open>k < length defs\<close>
      by simp
    ultimately show ?thesis using free by auto
  qed
  from a b show ?thesis by blast
qed

theorem uniform_ranges_disjoint_witness:
  "new_uniform (assign_example_defs ! 5) \<and> new_uniform (assign_example_defs ! 4) \<and>
   old_uniform (assign_example_defs ! 3) \<and>
   (\<exists>defs' instrs'.
      assign_locations vertex example_npl assign_example_defs assign_example_instrs
        = Inr (defs', instrs') \<and>
      uniform_range example_npl (defs' ! 5) = {5..<9} \<and>
      uniform_range example_npl (defs' ! 4) = {0..<1} \<and>
      uniform_range example_npl (assign_example_defs ! 3) = {1..<5} \<and>
      uniform_range example_npl (defs' ! 5) \<inter> uniform_range example_npl (defs' ! 4) = {} \<and>
      uniform_range example_npl (defs' ! 5) \<inter> uniform_range example_npl (assign_example_defs ! 3)
        = {})"
proof -
  let ?defs' = "[Definition_default,
           example_variable ''p3d_Vertex'' (Vector ST_float 4) SpvStorageClassInput 0,
           example_variable ''color'' (Vector ST_float 4) SpvStorageClassInput 1,
           example_variable ''mvp'' (Matrix ST_float 4 4) SpvStorageClassUniformConstant 1,
           example_variable ''tex'' (SampledImage TT_2d_texture) SpvStorageClassUniformConstant 0,
           example_variable ''proj'' (Matrix ST_float 4 4) SpvStorageClassUniformConstant 5]"
  have n5: "new_uniform (assign_example_defs ! 5)" and n4: "new_uniform (assign_example_defs ! 4)"
    and o3: "old_uniform (assign_example_defs ! 3)"
    by (simp_all add: assign_example_defs_def example_variable_def needs_location_def
        new_uniform_def old_uniform_def)
  have len: "5 < length assign_example_defs" "4 < length assign_example_defs"
    "3 < length assign_example_defs"
    by (simp_all add: assign_example_defs_def)
  note t = uniform_ranges_disjoint[OF assign_example_result len(1) n5]
  have d: "uniform_range example_npl (?defs' ! 5) \<inter> uniform_range example_npl (?defs' ! 4) = {}"
    "uniform_range example_npl (?defs' ! 5) \<inter> uniform_range example_npl (assign_example_defs ! 3) = {}"
    using t[THEN conjunct1, rule_format, OF len(2)] t[THEN conjunct2, rule_format, OF len(3) o3] n4
    by simp_all
  have r: "uniform_range example_npl (?defs' ! 5) = {5..<9}"
    "uniform_range example_npl (?defs' ! 4) = {0..<1}"
    "uniform_range example_npl (assign_example_defs ! 3) = {1..<5}"
    by (simp_all add: uniform_range_def example_variable_def example_npl_def
        assign_example_defs_def)
  from d r n5 n4 o3 assign_example_result show ?thesis by blast
qed

lemma assign_location_input_locations:
  assumes "assign_location stg npl ls d = Inr (r, ls')"
  shows "input_locations ls' =
           (if needs_location d \<and> def_storage_class d = SpvStorageClassInput
            then set_bit (input_locations ls) (input_location stg (input_locations ls) (def_name d))
            else input_locations ls)"
    and "needs_location d \<and> def_storage_class d = SpvStorageClassInput \<longrightarrow>
           r = Some (input_location stg (input_locations ls) (def_name d))"
  using assms
  by (auto simp: assign_location_def needs_location_def Let_def
           split: if_splits option.splits sum.splits)

lemma assign_loop_input:
  assumes "assign_loop stg npl ls i ds = Inr (ds', decs)" and "k < length ds"
    and "needs_location (ds ! k)" and "def_storage_class (ds ! k) = SpvStorageClassInput"
  shows "\<exists>il. (\<forall>m. get_bit il m \<longleftrightarrow>
                    get_bit (input_locations ls) m \<or>
                    (\<exists>j < k. needs_location (ds ! j) \<and>
                             def_storage_class (ds ! j) = SpvStorageClassInput \<and>
                             def_location (ds' ! j) = int m)) \<and>
              def_location (ds' ! k) = int (input_location stg il (def_name (ds ! k)))"
  using assms
proof (induction ds arbitrary: ls i ds' decs k)
  case Nil
  then show ?case by simp
next
  case (Cons d ds)
  from Cons.prems(1) obtain r ls' ds'' decs' where
    al: "assign_location stg npl ls d = Inr (r, ls')"
    and lp: "assign_loop stg npl ls' (Suc i) ds = Inr (ds'', decs')"
    and hd: "ds' = (case r of None \<Rightarrow> d | Some l \<Rightarrow> d\<lparr>def_location := int l\<rparr>) # ds''"
    by (auto split: sum.splits option.splits)
  note il' = assign_location_input_locations[OF al]
  show ?case
  proof (cases k)
    case 0
    with Cons.prems(3,4) il'(2) hd
    have "def_location (ds' ! k) = int (input_location stg (input_locations ls) (def_name ((d # ds) ! k)))"
      by simp
    then show ?thesis using 0 by (intro exI[of _ "input_locations ls"]) simp
  next
    case (Suc k')
    with Cons.prems have k': "k' < length ds" "needs_location (ds ! k')"
      "def_storage_class (ds ! k') = SpvStorageClassInput" by simp_all
    from Cons.IH[OF lp k'] obtain il where
      il: "\<forall>m. get_bit il m \<longleftrightarrow>
                    get_bit (input_locations ls') m \<or>
                    (\<exists>j < k'. needs_location (ds ! j) \<and>
                             def_storage_class (ds ! j) = SpvStorageClassInput \<and>
                             def_location (ds'' ! j) = int m)"
      and l: "def_location (ds'' ! k') = int (input_location stg il (def_name (ds ! k')))"
      by blast
    have head: "get_bit (input_locations ls') m \<longleftrightarrow>
                  get_bit (input_locations ls) m \<or>
                  (needs_location d \<and> def_storage_class d = SpvStorageClassInput \<and>
                   def_location (ds' ! 0) = int m)" for m
    proof (cases "needs_location d \<and> def_storage_class d = SpvStorageClassInput")
      case True
      with il' hd show ?thesis by (auto simp: get_bit_set_bit)
    next
      case False
      with il'(1) show ?thesis by auto
    qed
    have ex: "(\<exists>j < Suc k'. needs_location ((d # ds) ! j) \<and>
                  def_storage_class ((d # ds) ! j) = SpvStorageClassInput \<and>
                  def_location (ds' ! j) = int m) \<longleftrightarrow>
              (needs_location d \<and> def_storage_class d = SpvStorageClassInput \<and>
                   def_location (ds' ! 0) = int m) \<or>
              (\<exists>j < k'. needs_location (ds ! j) \<and>
                             def_storage_class (ds ! j) = SpvStorageClassInput \<and>
                             def_location (ds'' ! j) = int m)" for m
      unfolding hd by (auto simp: less_Suc_eq_0_disj)
    have "\<forall>m. get_bit il m \<longleftrightarrow>
                    get_bit (input_locations ls) m \<or>
                    (\<exists>j < k. needs_location ((d # ds) ! j) \<and>
                             def_storage_class ((d # ds) ! j) = SpvStorageClassInput \<and>
                             def_location (ds' ! j) = int m)"
      unfolding Suc ex using il head by blast
    moreover have "def_location (ds' ! k) = int (input_location stg il (def_name ((d # ds) ! k)))"
      using l hd Suc by simp
    ultimately show ?thesis by blast
  qed
qed

lemma get_bit_Nil: "\<not> get_bit [] m"
  by (simp add: get_bit_def)

lemma record_location_input:
  "get_bit (input_locations (record_location npl ls d)) m \<longleftrightarrow>
     get_bit (input_locations ls) m \<or>
     (def_dtype d = DT_variable \<and> 0 \<le> def_location d \<and>
      def_storage_class d = SpvStorageClassInput \<and> def_location d = int m)"
  by (auto simp: record_location_def get_bit_set_bit)

lemma foldl_record_location_input:
  "get_bit (input_locations (foldl (record_location npl) ls ds)) m \<longleftrightarrow>
     get_bit (input_locations ls) m \<or>
     (\<exists>d \<in> set ds. def_dtype d = DT_variable \<and> 0 \<le> def_location d \<and>
        def_storage_class d = SpvStorageClassInput \<and> def_location d = int m)"
proof (induction ds arbitrary: ls)
  case Nil
  then show ?case by simp
next
  case (Cons d ds)
  show ?case unfolding foldl_Cons Cons.IH record_location_input by auto
qed

lemma input_location_cases:
  "(stg = vertex \<and> \<not> get_bit il 0 \<and> n \<in> vertex_aliases \<longrightarrow> input_location stg il n = 0) \<and>
   (stg = vertex \<and> \<not> get_bit il 0 \<and> n \<notin> vertex_aliases \<longrightarrow>
      1 \<le> input_location stg il n \<and> \<not> get_bit il (input_location stg il n) \<and>
      (\<forall>m. 1 \<le> m \<and> m < input_location stg il n \<longrightarrow> get_bit il m)) \<and>
   (stg \<noteq> vertex \<or> get_bit il 0 \<longrightarrow>
      \<not> get_bit il (input_location stg il n) \<and> (\<forall>m < input_location stg il n. get_bit il m))"
proof -
  define l where "l = input_location stg il n"
  have 3: "l = 0" if "stg = vertex \<and> \<not> get_bit il 0 \<and> n \<in> vertex_aliases"
    using that by (auto simp: input_location_def l_def vertex_aliases_def)
  have 4: "1 \<le> l \<and> \<not> get_bit il l \<and> (\<forall>m. 1 \<le> m \<and> m < l \<longrightarrow> get_bit il m)"
    if a: "stg = vertex \<and> \<not> get_bit il 0 \<and> n \<notin> vertex_aliases"
  proof (cases "get_bit il 1")
    case False
    with a have "l = 1" by (auto simp: input_location_def l_def vertex_aliases_def)
    with False show ?thesis by auto
  next
    case True
    with a have l: "l = get_next_higher_different_bit il 1"
      by (auto simp: input_location_def l_def vertex_aliases_def)
    from next_bit_of_on[OF True] have
      "1 < l" "\<not> get_bit il l" "\<forall>m. 1 < m \<and> m < l \<longrightarrow> get_bit il m"
      unfolding l by auto
    moreover have "get_bit il m" if "1 \<le> m" "m < l" for m
      using that True calculation(3) by (cases "m = 1") auto
    ultimately show ?thesis by auto
  qed
  have 5: "\<not> get_bit il l \<and> (\<forall>m < l. get_bit il m)" if "stg \<noteq> vertex \<or> get_bit il 0"
  proof -
    from that have "l = get_lowest_off_bit il" by (auto simp: input_location_def l_def)
    then show ?thesis using get_lowest_off_bit_off get_lowest_off_bit_below by auto
  qed
  from 3 4 5 show ?thesis unfolding l_def by blast
qed

lemma input_taken_iff:
  "input_taken defs defs' i l \<longleftrightarrow>
     (\<exists>k < length defs. def_dtype (defs ! k) = DT_variable \<and>
                  def_storage_class (defs ! k) = SpvStorageClassInput \<and>
                  def_location (defs' ! k) = int l \<and>
                  (0 \<le> def_location (defs ! k) \<or> k < i))"
  by (auto simp: input_taken_def list_ex_iff)

text \<open>
  C9. \<open>assign_locations\<close> returns when no unassigned uniform-constant variable lacks a type.
  When it returns, an unassigned input variable that is not a built-in has got a location
  \<open>l\<close>, where a location counts as taken if an input variable had it before
  \<open>assign_locations\<close> ran or an input variable of a lower id has been given it: \<open>l\<close> is 0 when
  the stage is vertex, location 0 is free and the name is \<open>vertex\<close>, \<open>p3d_Vertex\<close> or
  \<open>vtx_position\<close>; \<open>l\<close> is the lowest free location not below 1 when the stage is vertex,
  location 0 is free and the name is none of these; and \<open>l\<close> is the lowest free location
  otherwise.
\<close>

theorem assign_locations_input_rule:
  "((\<forall>d \<in> set defs. new_uniform d \<longrightarrow> def_type d \<noteq> None) \<longrightarrow>
      (\<exists>defs' instrs'. assign_locations stg npl defs instrs = Inr (defs', instrs'))) \<and>
   (assign_locations stg npl defs instrs = Inr (defs', instrs') \<and> i < length defs \<and>
    needs_location (defs ! i) \<and> def_storage_class (defs ! i) = SpvStorageClassInput \<longrightarrow>
      (\<exists>l. def_location (defs' ! i) = int l \<and>
           (stg = vertex \<and> \<not> input_taken defs defs' i 0 \<and> def_name (defs ! i) \<in> vertex_aliases
              \<longrightarrow> l = 0) \<and>
           (stg = vertex \<and> \<not> input_taken defs defs' i 0 \<and> def_name (defs ! i) \<notin> vertex_aliases
              \<longrightarrow> 1 \<le> l \<and> \<not> input_taken defs defs' i l \<and>
                  (\<forall>m. 1 \<le> m \<and> m < l \<longrightarrow> input_taken defs defs' i m)) \<and>
           (stg \<noteq> vertex \<or> input_taken defs defs' i 0
              \<longrightarrow> \<not> input_taken defs defs' i l \<and> (\<forall>m < l. input_taken defs defs' i m))))"
proof (intro conjI impI)
  let ?ls = "foldl (record_location npl)
                 \<lparr>has_unassigned_locations = False, input_locations = [],
                  output_locations = [], uniform_locations = []\<rparr> defs"
  {
    assume t: "\<forall>d \<in> set defs. new_uniform d \<longrightarrow> def_type d \<noteq> None"
    then have "\<forall>d \<in> set defs. needs_location d \<and> def_storage_class d = SpvStorageClassUniformConstant
                 \<longrightarrow> def_type d \<noteq> None"
      by (simp add: new_uniform_def)
    from assign_loop_result[OF this, of stg npl ?ls 0] obtain ds' decs where
      "assign_loop stg npl ?ls 0 defs = Inr (ds', decs)" by blast
    then show "\<exists>defs' instrs'. assign_locations stg npl defs instrs = Inr (defs', instrs')"
      by (simp add: assign_locations_def Let_def)
  }
  assume a: "assign_locations stg npl defs instrs = Inr (defs', instrs') \<and> i < length defs \<and>
    needs_location (defs ! i) \<and> def_storage_class (defs ! i) = SpvStorageClassInput"
  then have "\<exists>d \<in> set defs. needs_location d" by auto
  then have "has_unassigned_locations ?ls" by (simp add: has_unassigned_foldl)
  with a obtain decs where lp: "assign_loop stg npl ?ls 0 defs = Inr (defs', decs)"
    by (auto simp: assign_locations_def Let_def split: sum.splits)
  from a have i: "i < length defs" and nl: "needs_location (defs ! i)"
    and ic: "def_storage_class (defs ! i) = SpvStorageClassInput" by simp_all
  from assign_loop_input[OF lp i nl ic] obtain il where
    il: "\<forall>m. get_bit il m \<longleftrightarrow>
                    get_bit (input_locations ?ls) m \<or>
                    (\<exists>j < i. needs_location (defs ! j) \<and>
                             def_storage_class (defs ! j) = SpvStorageClassInput \<and>
                             def_location (defs' ! j) = int m)"
    and l: "def_location (defs' ! i) = int (input_location stg il (def_name (defs ! i)))"
    by blast
  note keeps = assign_loop_keeps[OF lp]
  have taken: "get_bit il m \<longleftrightarrow> input_taken defs defs' i m" for m
  proof
    assume "get_bit il m"
    with il consider
        (old) "get_bit (input_locations ?ls) m"
      | (new) j where "j < i" "needs_location (defs ! j)"
          "def_storage_class (defs ! j) = SpvStorageClassInput" "def_location (defs' ! j) = int m"
      by blast
    then show "input_taken defs defs' i m"
    proof cases
      case old
      then have "\<exists>d \<in> set defs. def_dtype d = DT_variable \<and> 0 \<le> def_location d \<and>
        def_storage_class d = SpvStorageClassInput \<and> def_location d = int m"
        unfolding foldl_record_location_input by (simp add: get_bit_Nil)
      then obtain d where d: "d \<in> set defs" "def_dtype d = DT_variable" "0 \<le> def_location d"
        "def_storage_class d = SpvStorageClassInput" "def_location d = int m"
        by blast
      then obtain k where k: "k < length defs" "defs ! k = d" by (auto simp: in_set_conv_nth)
      with d have "\<not> needs_location (defs ! k)" by (simp add: needs_location_def)
      with keeps k have "defs' ! k = d" by simp
      with k d show ?thesis unfolding input_taken_iff by (intro exI[of _ k]) simp
    next
      case new
      with i show ?thesis unfolding input_taken_iff
        by (intro exI[of _ j]) (simp add: needs_location_def)
    qed
  next
    assume "input_taken defs defs' i m"
    then obtain k where k: "k < length defs" "def_dtype (defs ! k) = DT_variable"
      "def_storage_class (defs ! k) = SpvStorageClassInput" "def_location (defs' ! k) = int m"
      "0 \<le> def_location (defs ! k) \<or> k < i"
      unfolding input_taken_iff by blast
    show "get_bit il m"
    proof (cases "0 \<le> def_location (defs ! k)")
      case True
      then have "\<not> needs_location (defs ! k)" by (simp add: needs_location_def)
      with keeps k(1) have "defs' ! k = defs ! k" by simp
      with k True have "\<exists>d \<in> set defs. def_dtype d = DT_variable \<and> 0 \<le> def_location d \<and>
        def_storage_class d = SpvStorageClassInput \<and> def_location d = int m"
        by (intro bexI[of _ "defs ! k"]) simp_all
      then have "get_bit (input_locations ?ls) m"
        unfolding foldl_record_location_input by blast
      with il show ?thesis by blast
    next
      case False
      with k(5) have ki: "k < i" by simp
      have "needs_location (defs ! k)"
      proof (rule ccontr)
        assume "\<not> needs_location (defs ! k)"
        with keeps k(1) have "defs' ! k = defs ! k" by simp
        with k(4) False show False by simp
      qed
      with ki k il show ?thesis by blast
    qed
  qed
  from input_location_cases[of stg il "def_name (defs ! i)"] l
  show "\<exists>l. def_location (defs' ! i) = int l \<and>
           (stg = vertex \<and> \<not> input_taken defs defs' i 0 \<and> def_name (defs ! i) \<in> vertex_aliases
              \<longrightarrow> l = 0) \<and>
           (stg = vertex \<and> \<not> input_taken defs defs' i 0 \<and> def_name (defs ! i) \<notin> vertex_aliases
              \<longrightarrow> 1 \<le> l \<and> \<not> input_taken defs defs' i l \<and>
                  (\<forall>m. 1 \<le> m \<and> m < l \<longrightarrow> input_taken defs defs' i m)) \<and>
           (stg \<noteq> vertex \<or> input_taken defs defs' i 0
              \<longrightarrow> \<not> input_taken defs defs' i l \<and> (\<forall>m < l. input_taken defs defs' i m))"
    unfolding taken[symmetric]
    by (intro exI[of _ "input_location stg il (def_name (defs ! i))"]) blast
qed

lemma assign_example_vertex:
  "assign_locations vertex example_npl assign_example_defs assign_example_instrs =
     Inr (assign_example_located,
          [\<lparr>opcode = SpvOpCapability, args = [1]\<rparr>,
           location_decoration 1 0, location_decoration 2 1,
           location_decoration 4 0, location_decoration 5 5,
           \<lparr>opcode = SpvOpTypeFloat, args = [6, 32]\<rparr>])"
  by code_simp

lemma input_example_vertex:
  "assign_locations vertex example_npl input_example_defs assign_example_instrs =
     Inr (input_example_located 2,
          [\<lparr>opcode = SpvOpCapability, args = [1]\<rparr>, location_decoration 1 2,
           \<lparr>opcode = SpvOpTypeFloat, args = [6, 32]\<rparr>])"
  by code_simp

lemma input_example_fragment:
  "assign_locations fragment example_npl input_example_defs assign_example_instrs =
     Inr (input_example_located 0,
          [\<lparr>opcode = SpvOpCapability, args = [1]\<rparr>, location_decoration 1 0,
           \<lparr>opcode = SpvOpTypeFloat, args = [6, 32]\<rparr>])"
  by code_simp

lemma assign_example_taken:
  "\<not> input_taken assign_example_defs assign_example_located 1 0"
  "input_taken assign_example_defs assign_example_located 2 0"
  "\<not> input_taken assign_example_defs assign_example_located 2 1"
  by code_simp+

lemma input_example_taken:
  "\<not> input_taken input_example_defs (input_example_located 2) 1 0"
  "input_taken input_example_defs (input_example_located 2) 1 1"
  "\<not> input_taken input_example_defs (input_example_located 2) 1 2"
  "\<not> input_taken input_example_defs (input_example_located 0) 1 0"
  by code_simp+

theorem assign_locations_input_rule_witness:
  "(\<exists>defs' instrs'.
      assign_locations vertex example_npl assign_example_defs assign_example_instrs
        = Inr (defs', instrs') \<and>
      \<not> input_taken assign_example_defs defs' 1 0 \<and> def_location (defs' ! 1) = 0 \<and>
      input_taken assign_example_defs defs' 2 0 \<and> def_location (defs' ! 2) = 1) \<and>
   (\<exists>defs' instrs'.
      assign_locations vertex example_npl input_example_defs assign_example_instrs
        = Inr (defs', instrs') \<and>
      \<not> input_taken input_example_defs defs' 1 0 \<and> def_location (defs' ! 1) = 2) \<and>
   (\<exists>defs' instrs'.
      assign_locations fragment example_npl input_example_defs assign_example_instrs
        = Inr (defs', instrs') \<and>
      def_location (defs' ! 1) = 0)"
proof -
  have a: "1 < length assign_example_defs" "2 < length assign_example_defs"
    "needs_location (assign_example_defs ! 1)" "needs_location (assign_example_defs ! 2)"
    "def_storage_class (assign_example_defs ! 1) = SpvStorageClassInput"
    "def_storage_class (assign_example_defs ! 2) = SpvStorageClassInput"
    "def_name (assign_example_defs ! 1) \<in> vertex_aliases"
    by (simp_all add: assign_example_defs_def example_variable_def needs_location_def
        vertex_aliases_def)
  have b: "1 < length input_example_defs" "needs_location (input_example_defs ! 1)"
    "def_storage_class (input_example_defs ! 1) = SpvStorageClassInput"
    "def_name (input_example_defs ! 1) \<notin> vertex_aliases"
    by (simp_all add: input_example_defs_def example_variable_def needs_location_def
        vertex_aliases_def)
  note r = assign_locations_input_rule[THEN conjunct2, rule_format]
  from r[of vertex example_npl assign_example_defs assign_example_instrs _ _ 1]
    assign_example_vertex a assign_example_taken(1)
  have 1: "def_location (assign_example_located ! 1) = 0"
    by auto
  from r[of vertex example_npl assign_example_defs assign_example_instrs _ _ 2]
    assign_example_vertex a assign_example_taken(2)
  obtain l where l: "def_location (assign_example_located ! 2) = int l"
    "\<not> input_taken assign_example_defs assign_example_located 2 l"
    "\<forall>m < l. input_taken assign_example_defs assign_example_located 2 m"
    by auto
  have "l = 1"
  proof (rule ccontr)
    assume n: "l \<noteq> 1"
    show False
    proof (cases "l = 0")
      case True
      with l(2) assign_example_taken(2) show False by simp
    next
      case False
      with n have "1 < l" by simp
      with l(3) assign_example_taken(3) show False by blast
    qed
  qed
  with l(1) have 2: "def_location (assign_example_located ! 2) = 1" by simp
  from r[of vertex example_npl input_example_defs assign_example_instrs _ _ 1]
    input_example_vertex b input_example_taken(1)
  obtain l' where l': "def_location (input_example_located 2 ! 1) = int l'" "1 \<le> l'"
    "\<not> input_taken input_example_defs (input_example_located 2) 1 l'"
    "\<forall>m. 1 \<le> m \<and> m < l' \<longrightarrow> input_taken input_example_defs (input_example_located 2) 1 m"
    by auto
  have "l' = 2"
  proof (rule ccontr)
    assume n: "l' \<noteq> 2"
    show False
    proof (cases "l' = 1")
      case True
      with l'(3) input_example_taken(2) show False by simp
    next
      case False
      with n l'(2) have "1 \<le> (2 :: nat) \<and> 2 < l'" by simp
      with l'(4) input_example_taken(3) show False by blast
    qed
  qed
  with l'(1) have 3: "def_location (input_example_located 2 ! 1) = 2" by simp
  from r[of fragment example_npl input_example_defs assign_example_instrs _ _ 1]
    input_example_fragment b
  obtain l'' where l'': "def_location (input_example_located 0 ! 1) = int l''"
    "\<forall>m < l''. input_taken input_example_defs (input_example_located 0) 1 m"
    by auto
  have "l'' = 0"
  proof (rule ccontr)
    assume "l'' \<noteq> 0"
    with l''(2) input_example_taken(4) show False by simp
  qed
  with l''(1) have 4: "def_location (input_example_located 0 ! 1) = 0" by simp
  from 1 2 3 4 assign_example_vertex input_example_vertex input_example_fragment
    assign_example_taken input_example_taken
  show ?thesis by blast
qed

end
